theory Spec2Isabelle
  imports Main "HOL-Library.Word"
begin

unbundle bit_operations_syntax

section \<open>Builtin functions of the pattern language bridge\<close>

text \<open>
  A shallow embedding of \<^verbatim>\<open>plugins/builtin/source/content/pl_builtin_functions.cpp\<close>.
  Every builtin is a C++ lambda \<^verbatim>\<open>(Evaluator *ctx, auto params) -> std::optional<Token::Literal>\<close>
  that may leave through \<^verbatim>\<open>LogConsole::abortEvaluation(message)\<close>.  In the embedding a
  builtin returns \<open>fault + literal option\<close>: \<open>Inl (Abort message)\<close> is the abort,
  \<open>Inr None\<close> is \<^verbatim>\<open>std::nullopt\<close> and \<open>Inr (Some v)\<close> a returned literal.
  The parameters of the embedded functions are the values the lambdas obtain from
  \<^verbatim>\<open>Token::literalToUnsigned\<close> (a \<^verbatim>\<open>u128\<close>), \<^verbatim>\<open>Token::literalToSigned\<close> (an
  \<^verbatim>\<open>i128\<close>) and \<^verbatim>\<open>Token::literalToString\<close>; these conversions belong to the pattern
  language library and are not part of this file.
\<close>

subsection \<open>Values and failures\<close>

type_synonym u8 = "8 word"
type_synonym u32 = "32 word"
type_synonym u64 = "64 word"
type_synonym u128 = "128 word"
type_synonym i128 = "128 word"

text \<open>A \<^verbatim>\<open>double\<close> is kept as its IEEE-754 binary64 bit pattern; \<open>0.0\<close> is the pattern 0.\<close>

type_synonym double = "64 word"

text \<open>A \<^verbatim>\<open>pl::Pattern *\<close>; the only capability the builtins use is \<^verbatim>\<open>toString()\<close>.\<close>

datatype pattern = Pattern (toString: string)

text \<open>\<^verbatim>\<open>Token::Literal\<close>, the tagged union exchanged with the evaluator.\<close>

datatype literal =
    UnsignedInteger u128
  | SignedInteger i128
  | FloatingPoint double
  | Boolean bool
  | Character char
  | String string
  | PatternReference pattern

text \<open>
  \<open>Abort\<close> is \<^verbatim>\<open>LogConsole::abortEvaluation\<close>; \<open>Undefined\<close> marks an execution that C++
  leaves undefined (signed overflow, an access past the end of a container).
\<close>

datatype fault = Abort string | Undefined

type_synonym outcome = "fault + literal option"

subsection \<open>Namespace std\<close>

text \<open>
  \<^verbatim>\<open>sizeof_pack\<close>: the lambda ignores its evaluator (the parameter is unnamed) and returns
  \<^verbatim>\<open>u128(params.size())\<close>.  The evaluator state \<open>ctx\<close> is threaded through to make the
  absence of an effect a statement about the result.
\<close>

definition sizeof_pack :: "'ctx \<Rightarrow> literal list \<Rightarrow> 'ctx \<times> outcome" where
  "sizeof_pack ctx params = (ctx, Inr (Some (UnsignedInteger (word_of_nat (length params)))))"


subsection \<open>Namespace std::string\<close>

text \<open>
  \<^verbatim>\<open>std::string::operator[](pos)\<close>: the character at \<open>pos\<close>; at \<open>pos = size()\<close> the
  standard guarantees a reference to the terminating \<^verbatim>\<open>'\0'\<close>; beyond that the access is
  undefined.
\<close>

definition string_index :: "string \<Rightarrow> nat \<Rightarrow> fault + char" where
  "string_index s pos =
     (if pos < length s then Inr (s ! pos)
      else if pos = length s then Inr (CHR 0x00)
      else Inl Undefined)"

text \<open>The implicit conversion of an \<^verbatim>\<open>i128\<close> expression to \<^verbatim>\<open>size_t\<close> (64 bits).\<close>

definition to_size_t :: "int \<Rightarrow> nat" where
  "to_size_t i = unat (word_of_int i :: u64)"

text \<open>
  \<^verbatim>\<open>at(string, index)\<close>.  \<open>absIndex\<close> is \<^verbatim>\<open>std::abs(index)\<close> (on macOS the equivalent
  sign-mask expression), which overflows for the least \<^verbatim>\<open>i128\<close>.  The comparison with
  \<^verbatim>\<open>string.length()\<close> is made in \<^verbatim>\<open>i128\<close>.
\<close>

definition at :: "string \<Rightarrow> i128 \<Rightarrow> outcome" where
  "at string index =
     (if sint index = - (2 ^ 127) then Inl Undefined
      else
        let absIndex = \<bar>sint index\<bar> in
        if absIndex > int (length string) then Inl (Abort ''character index out of range'')
        else if sint index \<ge> 0 then
          (case string_index string (to_size_t (sint index)) of
             Inl f \<Rightarrow> Inl f
           | Inr c \<Rightarrow> Inr (Some (Character c)))
        else
          (case string_index string (to_size_t (int (length string) - - sint index)) of
             Inl f \<Rightarrow> Inl f
           | Inr c \<Rightarrow> Inr (Some (Character c))))"

subsection \<open>The registrations\<close>

text \<open>
  \<^verbatim>\<open>registerPatternLanguageFunctions\<close> is a sequence of calls of
  \<^verbatim>\<open>ContentRegistry::PatternLanguage::addFunction\<close> (Standard tier) and
  \<^verbatim>\<open>addDangerousFunction\<close> (Dangerous tier).  The embedding keeps the calls in their order,
  each with its namespace, name, \<^verbatim>\<open>FunctionParameterCount\<close> and an identifier of the lambda
  that is passed (named after what the lambda's body computes).
\<close>

datatype parameter_count = CountNone | Exactly nat | AtLeast nat | MoreThan nat

datatype trust = Standard | Dangerous

datatype body =
    Fn_print | Fn_format | Fn_env | Fn_sizeof_pack | Fn_error | Fn_warning
  | Fn_base_address | Fn_size | Fn_find_sequence_in_range | Fn_read_unsigned
  | Fn_read_signed | Fn_read_string
  | Fn_length | Fn_at | Fn_substr | Fn_parse_int | Fn_parse_float
  | Fn_http_get
  | Fn_file_open | Fn_file_close | Fn_file_read | Fn_file_write | Fn_file_seek
  | Fn_file_size | Fn_file_resize | Fn_file_flush | Fn_file_remove
  | Fn_floor | Fn_ceil | Fn_round | Fn_trunc | Fn_log10 | Fn_log2 | Fn_ln
  | Fn_fmod | Fn_pow | Fn_sqrt | Fn_cbrt
  | Fn_sin | Fn_cos | Fn_tan | Fn_asin | Fn_acos | Fn_atan | Fn_atan2
  | Fn_sinh | Fn_cosh | Fn_tanh | Fn_asinh | Fn_acosh | Fn_atanh

record registration =
  namespace :: "string list"
  name :: string
  parameterCount :: parameter_count
  tier :: trust
  implementation :: body

definition addFunction ::
  "string list \<Rightarrow> string \<Rightarrow> parameter_count \<Rightarrow> body \<Rightarrow> registration" where
  "addFunction ns n c f =
     \<lparr>namespace = ns, name = n, parameterCount = c, tier = Standard, implementation = f\<rparr>"

definition addDangerousFunction ::
  "string list \<Rightarrow> string \<Rightarrow> parameter_count \<Rightarrow> body \<Rightarrow> registration" where
  "addDangerousFunction ns n c f =
     \<lparr>namespace = ns, name = n, parameterCount = c, tier = Dangerous, implementation = f\<rparr>"

definition nsStd :: "string list" where "nsStd = [''builtin'', ''std'']"
definition nsStdMem :: "string list" where "nsStdMem = [''builtin'', ''std'', ''mem'']"
definition nsStdString :: "string list" where "nsStdString = [''builtin'', ''std'', ''string'']"
definition nsStdHttp :: "string list" where "nsStdHttp = [''builtin'', ''std'', ''http'']"
definition nsStdFile :: "string list" where "nsStdFile = [''builtin'', ''std'', ''file'']"
definition nsStdMath :: "string list" where "nsStdMath = [''builtin'', ''std'', ''math'']"

definition registerPatternLanguageFunctions :: "registration list" where
  "registerPatternLanguageFunctions =
    [ addFunction nsStd ''print'' (MoreThan 0) Fn_print,
      addFunction nsStd ''format'' (MoreThan 0) Fn_format,
      addFunction nsStd ''env'' (Exactly 1) Fn_env,
      addFunction nsStd ''sizeof_pack'' (AtLeast 0) Fn_sizeof_pack,
      addFunction nsStd ''error'' (Exactly 1) Fn_error,
      addFunction nsStd ''warning'' (Exactly 1) Fn_warning,
      addFunction nsStdMem ''base_address'' CountNone Fn_base_address,
      addFunction nsStdMem ''size'' CountNone Fn_size,
      addFunction nsStdMem ''find_sequence_in_range'' (MoreThan 3) Fn_find_sequence_in_range,
      addFunction nsStdMem ''read_unsigned'' (Exactly 2) Fn_read_unsigned,
      addFunction nsStdMem ''read_signed'' (Exactly 2) Fn_read_signed,
      addFunction nsStdMem ''read_string'' (Exactly 2) Fn_read_string,
      addFunction nsStdString ''length'' (Exactly 1) Fn_length,
      addFunction nsStdString ''at'' (Exactly 2) Fn_at,
      addFunction nsStdString ''substr'' (Exactly 3) Fn_substr,
      addFunction nsStdString ''parse_int'' (Exactly 2) Fn_parse_int,
      addFunction nsStdString ''parse_float'' (Exactly 1) Fn_parse_float,
      addDangerousFunction nsStdHttp ''get'' (Exactly 1) Fn_http_get,
      addDangerousFunction nsStdFile ''open'' (Exactly 2) Fn_file_open,
      addDangerousFunction nsStdFile ''close'' (Exactly 1) Fn_file_close,
      addDangerousFunction nsStdFile ''read'' (Exactly 2) Fn_file_read,
      addDangerousFunction nsStdFile ''write'' (Exactly 2) Fn_file_write,
      addDangerousFunction nsStdFile ''seek'' (Exactly 2) Fn_file_seek,
      addDangerousFunction nsStdFile ''size'' (Exactly 1) Fn_file_size,
      addDangerousFunction nsStdFile ''resize'' (Exactly 2) Fn_file_resize,
      addDangerousFunction nsStdFile ''flush'' (Exactly 1) Fn_file_flush,
      addDangerousFunction nsStdFile ''remove'' (Exactly 1) Fn_file_remove,
      addFunction nsStdMath ''floor'' (Exactly 1) Fn_floor,
      addFunction nsStdMath ''ceil'' (Exactly 1) Fn_ceil,
      addFunction nsStdMath ''round'' (Exactly 1) Fn_round,
      addFunction nsStdMath ''trunc'' (Exactly 1) Fn_trunc,
      addFunction nsStdMath ''log10'' (Exactly 1) Fn_log10,
      addFunction nsStdMath ''log2'' (Exactly 1) Fn_log2,
      addFunction nsStdMath ''ln'' (Exactly 1) Fn_ln,
      addFunction nsStdMath ''fmod'' (Exactly 2) Fn_fmod,
      addFunction nsStdMath ''pow'' (Exactly 2) Fn_pow,
      addFunction nsStdMath ''sqrt'' (Exactly 1) Fn_sqrt,
      addFunction nsStdMath ''cbrt'' (Exactly 1) Fn_cbrt,
      addFunction nsStdMath ''sin'' (Exactly 1) Fn_sin,
      addFunction nsStdMath ''cos'' (Exactly 1) Fn_cos,
      addFunction nsStdMath ''tan'' (Exactly 1) Fn_tan,
      addFunction nsStdMath ''asin'' (Exactly 1) Fn_asin,
      addFunction nsStdMath ''acos'' (Exactly 1) Fn_acos,
      addFunction nsStdMath ''atan'' (Exactly 1) Fn_atan,
      addFunction nsStdMath ''atan'' (Exactly 1) Fn_atan2,
      addFunction nsStdMath ''sinh'' (Exactly 1) Fn_sinh,
      addFunction nsStdMath ''cosh'' (Exactly 1) Fn_cosh,
      addFunction nsStdMath ''tanh'' (Exactly 1) Fn_tanh,
      addFunction nsStdMath ''asinh'' (Exactly 1) Fn_asinh,
      addFunction nsStdMath ''acosh'' (Exactly 1) Fn_acosh,
      addFunction nsStdMath ''atanh'' (Exactly 1) Fn_atanh ]"

text \<open>All registrations made under a namespace and a name, in the order of the calls.\<close>

definition registered :: "string list \<Rightarrow> string \<Rightarrow> registration list" where
  "registered ns n =
     filter (\<lambda>r. namespace r = ns \<and> name r = n) registerPatternLanguageFunctions"


subsection \<open>Namespace std::file\<close>

text \<open>
  The file builtins share two function-local statics, \<^verbatim>\<open>static u32 fileCounter = 0\<close> and
  \<^verbatim>\<open>static std::map<u32, fs::File> openFiles\<close>.  They are the state that every file
  builtin takes and returns.
\<close>

record 'f file_table =
  fileCounter :: u32
  openFiles :: "u32 \<rightharpoonup> 'f"

definition init_table :: "'f file_table" where
  "init_table = \<lparr>fileCounter = 0, openFiles = Map.empty\<rparr>"

text \<open>
  \<^verbatim>\<open>fs::File\<close> is declared in \<^verbatim>\<open>hex/helpers/file.hpp\<close>; the builtins only call it.  Its
  constructor and member functions are parameters of the embedding, over a type \<open>'f\<close> of
  file objects: a member function that changes the object returns the changed object.
\<close>

datatype file_mode = Read | Write | Create

record 'f fs_api =
  File_open :: "string \<Rightarrow> file_mode \<Rightarrow> 'f"
  File_isValid :: "'f \<Rightarrow> bool"
  File_readString :: "'f \<Rightarrow> u64 \<Rightarrow> string \<times> 'f"
  File_write :: "'f \<Rightarrow> string \<Rightarrow> 'f"
  File_seek :: "'f \<Rightarrow> u64 \<Rightarrow> 'f"
  File_getSize :: "'f \<Rightarrow> u64"
  File_setSize :: "'f \<Rightarrow> u64 \<Rightarrow> 'f"
  File_flush :: "'f \<Rightarrow> 'f"
  File_remove :: "'f \<Rightarrow> 'f"

text \<open>
  \<^verbatim>\<open>openFiles.contains(file)\<close>, \<^verbatim>\<open>openFiles.erase(file)\<close> and \<^verbatim>\<open>openFiles[file]\<close> take the
  \<^verbatim>\<open>u128\<close> argument as a key of type \<^verbatim>\<open>u32\<close>: the implicit conversion keeps the low 32
  bits.
\<close>

definition key_of :: "u128 \<Rightarrow> u32" where
  "key_of file = ucast file"

definition contains :: "'f file_table \<Rightarrow> u128 \<Rightarrow> bool" where
  "contains st file = (openFiles st (key_of file) \<noteq> None)"

text \<open>\<^verbatim>\<open>std::map::emplace\<close> inserts only when the key is absent.\<close>

definition emplace :: "('k \<rightharpoonup> 'v) \<Rightarrow> 'k \<Rightarrow> 'v \<Rightarrow> ('k \<rightharpoonup> 'v)" where
  "emplace m k v = (if m k = None then m(k \<mapsto> v) else m)"

definition invalid_file :: fault where
  "invalid_file = Abort ''failed to access invalid file''"

definition file_open ::
  "'f fs_api \<Rightarrow> 'f file_table \<Rightarrow> string \<Rightarrow> u128 \<Rightarrow> 'f file_table \<times> outcome" where
  "file_open api st path modeEnum =
     (case (if modeEnum = 1 then Some Read
            else if modeEnum = 2 then Some Write
            else if modeEnum = 3 then Some Create
            else None) of
        None \<Rightarrow> (st, Inl (Abort ''invalid file open mode''))
      | Some mode \<Rightarrow>
          let file = File_open api path mode in
          if \<not> File_isValid api file then (st, Inl (Abort (''failed to open file '' @ path)))
          else
            let counter = fileCounter st + 1 in
            (st\<lparr>fileCounter := counter, openFiles := emplace (openFiles st) counter file\<rparr>,
             Inr (Some (UnsignedInteger (ucast counter)))))"

definition file_close :: "'f file_table \<Rightarrow> u128 \<Rightarrow> 'f file_table \<times> outcome" where
  "file_close st file =
     (if \<not> contains st file then (st, Inl invalid_file)
      else (st\<lparr>openFiles := (openFiles st)(key_of file := None)\<rparr>, Inr None))"

definition file_read ::
  "'f fs_api \<Rightarrow> 'f file_table \<Rightarrow> u128 \<Rightarrow> u128 \<Rightarrow> 'f file_table \<times> outcome" where
  "file_read api st file sz =
     (case openFiles st (key_of file) of
        None \<Rightarrow> (st, Inl invalid_file)
      | Some f \<Rightarrow>
          let (str, f') = File_readString api f (ucast sz) in
          (st\<lparr>openFiles := (openFiles st)(key_of file \<mapsto> f')\<rparr>, Inr (Some (String str))))"

definition file_write ::
  "'f fs_api \<Rightarrow> 'f file_table \<Rightarrow> u128 \<Rightarrow> string \<Rightarrow> 'f file_table \<times> outcome" where
  "file_write api st file data =
     (case openFiles st (key_of file) of
        None \<Rightarrow> (st, Inl invalid_file)
      | Some f \<Rightarrow>
          (st\<lparr>openFiles := (openFiles st)(key_of file \<mapsto> File_write api f data)\<rparr>, Inr None))"

definition file_seek ::
  "'f fs_api \<Rightarrow> 'f file_table \<Rightarrow> u128 \<Rightarrow> u128 \<Rightarrow> 'f file_table \<times> outcome" where
  "file_seek api st file offset =
     (case openFiles st (key_of file) of
        None \<Rightarrow> (st, Inl invalid_file)
      | Some f \<Rightarrow>
          (st\<lparr>openFiles := (openFiles st)(key_of file \<mapsto> File_seek api f (ucast offset))\<rparr>,
           Inr None))"

definition file_size ::
  "'f fs_api \<Rightarrow> 'f file_table \<Rightarrow> u128 \<Rightarrow> 'f file_table \<times> outcome" where
  "file_size api st file =
     (case openFiles st (key_of file) of
        None \<Rightarrow> (st, Inl invalid_file)
      | Some f \<Rightarrow> (st, Inr (Some (UnsignedInteger (ucast (File_getSize api f))))))"

definition file_resize ::
  "'f fs_api \<Rightarrow> 'f file_table \<Rightarrow> u128 \<Rightarrow> u128 \<Rightarrow> 'f file_table \<times> outcome" where
  "file_resize api st file sz =
     (case openFiles st (key_of file) of
        None \<Rightarrow> (st, Inl invalid_file)
      | Some f \<Rightarrow>
          (st\<lparr>openFiles := (openFiles st)(key_of file \<mapsto> File_setSize api f (ucast sz))\<rparr>,
           Inr None))"

definition file_flush ::
  "'f fs_api \<Rightarrow> 'f file_table \<Rightarrow> u128 \<Rightarrow> 'f file_table \<times> outcome" where
  "file_flush api st file =
     (case openFiles st (key_of file) of
        None \<Rightarrow> (st, Inl invalid_file)
      | Some f \<Rightarrow>
          (st\<lparr>openFiles := (openFiles st)(key_of file \<mapsto> File_flush api f)\<rparr>, Inr None))"

definition file_remove ::
  "'f fs_api \<Rightarrow> 'f file_table \<Rightarrow> u128 \<Rightarrow> 'f file_table \<times> outcome" where
  "file_remove api st file =
     (case openFiles st (key_of file) of
        None \<Rightarrow> (st, Inl invalid_file)
      | Some f \<Rightarrow>
          (st\<lparr>openFiles := (openFiles st)(key_of file \<mapsto> File_remove api f)\<rparr>, Inr None))"

text \<open>
  A script calls the file builtins one after the other; an abort ends the evaluation that
  made the call, and the two statics keep their values for the next call.
\<close>

datatype call =
    Open string u128
  | Close u128
  | ReadFile u128 u128
  | WriteFile u128 string
  | Seek u128 u128
  | Size u128
  | Resize u128 u128
  | Flush u128
  | Remove u128

fun invoke :: "'f fs_api \<Rightarrow> 'f file_table \<Rightarrow> call \<Rightarrow> 'f file_table \<times> outcome" where
  "invoke api st (Open path modeEnum) = file_open api st path modeEnum"
| "invoke api st (Close file) = file_close st file"
| "invoke api st (ReadFile file sz) = file_read api st file sz"
| "invoke api st (WriteFile file data) = file_write api st file data"
| "invoke api st (Seek file offset) = file_seek api st file offset"
| "invoke api st (Size file) = file_size api st file"
| "invoke api st (Resize file sz) = file_resize api st file sz"
| "invoke api st (Flush file) = file_flush api st file"
| "invoke api st (Remove file) = file_remove api st file"

fun run :: "'f fs_api \<Rightarrow> 'f file_table \<Rightarrow> call list \<Rightarrow> 'f file_table \<times> outcome list" where
  "run api st [] = (st, [])"
| "run api st (c # cs) =
     (let (st', r) = invoke api st c;
          (st'', rs) = run api st' cs
      in (st'', r # rs))"

text \<open>The handle a call is applied to; \<^verbatim>\<open>open\<close> takes none.\<close>

fun handle_of :: "call \<Rightarrow> u128 option" where
  "handle_of (Open path modeEnum) = None"
| "handle_of (Close file) = Some file"
| "handle_of (ReadFile file sz) = Some file"
| "handle_of (WriteFile file data) = Some file"
| "handle_of (Seek file offset) = Some file"
| "handle_of (Size file) = Some file"
| "handle_of (Resize file sz) = Some file"
| "handle_of (Flush file) = Some file"
| "handle_of (Remove file) = Some file"

text \<open>The id a call of \<^verbatim>\<open>open\<close> returned, and the ids issued along a run.\<close>

fun opened :: "call \<times> outcome \<Rightarrow> u128 option" where
  "opened (Open path modeEnum, Inr (Some (UnsignedInteger v))) = Some v"
| "opened _ = None"

definition issued :: "'f fs_api \<Rightarrow> 'f file_table \<Rightarrow> call list \<Rightarrow> u128 list" where
  "issued api st cs = List.map_filter opened (zip cs (snd (run api st cs)))"

text \<open>
  A file system for examples: a file object is a path and a flag set by \<^verbatim>\<open>remove()\<close>;
  a file is valid when its path is not empty.
\<close>

definition example_fs :: "(string \<times> bool) fs_api" where
  "example_fs =
     \<lparr>File_open = (\<lambda>path mode. (path, False)),
      File_isValid = (\<lambda>f. fst f \<noteq> []),
      File_readString = (\<lambda>f n. ([], f)),
      File_write = (\<lambda>f data. f),
      File_seek = (\<lambda>f offset. f),
      File_getSize = (\<lambda>f. 0),
      File_setSize = (\<lambda>f n. f),
      File_flush = (\<lambda>f. f),
      File_remove = (\<lambda>f. (fst f, True))\<rparr>"

definition one_file :: "(string \<times> bool) file_table" where
  "one_file = \<lparr>fileCounter = 1, openFiles = [1 \<mapsto> (''a.bin'', False)]\<rparr>"

text \<open>
  The invariant of the table while the counter has not wrapped: every mapped id is one of
  the counter values \<open>1, \<dots>, fileCounter\<close>.
\<close>

definition ids_issued :: "'f file_table \<Rightarrow> bool" where
  "ids_issued st = (\<forall>k \<in> dom (openFiles st). 1 \<le> unat k \<and> unat k \<le> unat (fileCounter st))"

text \<open>Example data: a table with one open file, and a short script.\<close>

definition three_calls :: "call list" where
  "three_calls = [Open ''a.bin'' 3, Open [] 1, Open ''b.bin'' 1, Close 1, Open ''c.bin'' 2]"

text \<open>
  A handle, as the script holds it (a 128-bit value), is mapped when it is the id of an
  entry of the table.  The ids of the table are 32-bit, so a mapped handle is below
  \<open>2 ^ 32\<close>.  This differs from \<open>contains\<close>, the guard of the code, which looks at the
  low 32 bits of any handle.
\<close>

definition mapped :: "'f file_table \<Rightarrow> u128 \<Rightarrow> bool" where
  "mapped st h = (unat h < 2 ^ 32 \<and> openFiles st (key_of h) \<noteq> None)"

text \<open>An id that was issued and is not mapped any more.\<close>

definition retired :: "'f file_table \<Rightarrow> u32 \<Rightarrow> bool" where
  "retired st k = (openFiles st k = None \<and> unat k \<le> unat (fileCounter st))"

subsection \<open>Namespace std::mem\<close>

text \<open>
  The evaluator as the memory builtins use it: \<^verbatim>\<open>ctx->getDataSize()\<close> and
  \<^verbatim>\<open>ctx->readData(address, buffer, size)\<close>.  \<open>readData\<close> is given the address and the
  present contents of the buffer (a list of \<open>size\<close> bytes) and returns the contents it
  leaves in the buffer, or the fault with which the host ends the evaluation.
\<close>

record evaluator =
  getDataSize :: u64
  readData :: "u64 \<Rightarrow> u8 list \<Rightarrow> fault + u8 list"

text \<open>Decimal rendering of an integer, as \<^verbatim>\<open>hex::format("{}", n)\<close> prints it.\<close>

function decimal :: "nat \<Rightarrow> string" where
  "decimal n =
     (if n < 10 then [''0123456789'' ! n]
      else decimal (n div 10) @ [''0123456789'' ! (n mod 10)])"
  by pat_completeness auto
termination
  by (relation "measure id") auto

declare decimal.simps [simp del]

text \<open>
  The first loop of \<^verbatim>\<open>find_sequence_in_range\<close>: the parameters from index 3 on are the
  bytes of the sequence; \<open>i\<close> is the index of the parameter at the head of the list.
\<close>

fun sequence_of :: "nat \<Rightarrow> u128 list \<Rightarrow> fault + u8 list" where
  "sequence_of i [] = Inr []"
| "sequence_of i (byte # params) =
     (if byte > 0xFF then
        Inl (Abort (''byte #'' @ decimal i @ '' value out of range: ''
                    @ decimal (unat (ucast byte :: u64)) @ '' > 0xFF''))
      else
        (case sequence_of (Suc i) params of
           Inl f \<Rightarrow> Inl f
         | Inr sequence \<Rightarrow> Inr (ucast (byte AND 0xFF) # sequence)))"

text \<open>
  The result of the scan is paired with the addresses passed to \<open>readData\<close>, in the order
  of the calls: reading host memory is the effect of the builtin.
\<close>

definition logged :: "u64 \<Rightarrow> u64 list \<times> outcome \<Rightarrow> u64 list \<times> outcome" where
  "logged offset r = (offset # fst r, snd r)"

text \<open>
  The second loop,
  \<^verbatim>\<open>for (u64 offset = offsetFrom; offset < endOffset - sequence.size(); offset++)\<close>,
  from the state at the loop head: \<open>limit\<close> is the value of the \<^verbatim>\<open>u64\<close> expression
  \<^verbatim>\<open>endOffset - sequence.size()\<close>, \<open>bytes\<close> the read buffer, \<open>occurrences\<close> the \<^verbatim>\<open>u32\<close>
  match counter, which is compared with the \<^verbatim>\<open>u128\<close> \<open>occurrenceIndex\<close> in 128 bits.
\<close>

function scan ::
  "evaluator \<Rightarrow> u8 list \<Rightarrow> u128 \<Rightarrow> u64 \<Rightarrow> u8 list \<Rightarrow> u32 \<Rightarrow> u64 \<Rightarrow> u64 list \<times> outcome" where
  "scan ctx sequence occurrenceIndex limit bytes occurrences offset =
     (if offset < limit then
        (case readData ctx offset bytes of
           Inl f \<Rightarrow> ([offset], Inl f)
         | Inr bytes' \<Rightarrow>
             if bytes' = sequence then
               if ucast occurrences < occurrenceIndex then
                 logged offset
                   (scan ctx sequence occurrenceIndex limit bytes' (occurrences + 1) (offset + 1))
               else ([offset], Inr (Some (UnsignedInteger (ucast offset))))
             else
               logged offset
                 (scan ctx sequence occurrenceIndex limit bytes' occurrences (offset + 1)))
      else ([], Inr (Some (SignedInteger (- 1)))))"
  by pat_completeness auto
termination
proof (relation "measure (\<lambda>(ctx, sequence, occurrenceIndex, limit, bytes, occurrences, offset).
    unat limit - unat offset)")
  show "wf (measure (\<lambda>(ctx :: evaluator, sequence :: u8 list, occurrenceIndex :: u128,
      limit :: u64, bytes :: u8 list, occurrences :: u32, offset :: u64). unat limit - unat offset))"
    by simp
next
  fix limit offset :: u64
  assume "offset < limit"
  then have "unat offset < unat limit"
    by (simp add: word_less_nat_alt)
  moreover from this have "unat (offset + 1) = unat offset + 1"
    using unsigned_less [of limit, where ?'a = nat] by (simp add: unat_word_ariths)
  ultimately have "unat limit - unat (offset + 1) < unat limit - unat offset"
    by simp
  then show
    "\<And>ctx sequence occurrenceIndex bytes occurrences x2.
       ((ctx :: evaluator, sequence :: u8 list, occurrenceIndex :: u128, limit, x2 :: u8 list,
         occurrences + 1 :: u32, offset + 1),
        (ctx, sequence, occurrenceIndex, limit, bytes, occurrences, offset))
       \<in> measure (\<lambda>(ctx, sequence, occurrenceIndex, limit, bytes, occurrences, offset).
            unat limit - unat offset)"
    and
    "\<And>ctx sequence occurrenceIndex bytes occurrences x2.
       ((ctx :: evaluator, sequence :: u8 list, occurrenceIndex :: u128, limit, x2 :: u8 list,
         occurrences :: u32, offset + 1),
        (ctx, sequence, occurrenceIndex, limit, bytes, occurrences, offset))
       \<in> measure (\<lambda>(ctx, sequence, occurrenceIndex, limit, bytes, occurrences, offset).
            unat limit - unat offset)"
    by simp_all
qed

declare scan.simps [simp del]

text \<open>
  \<^verbatim>\<open>find_sequence_in_range(occurrence_index, start_offset, end_offset, bytes...)\<close>;
  \<open>params\<close> are the parameters from index 3 on.  \<open>endOffset\<close> and the loop variable are
  \<^verbatim>\<open>u64\<close>: \<^verbatim>\<open>u64(offsetTo)\<close> and the initialisation \<^verbatim>\<open>u64 offset = offsetFrom\<close> keep
  the low 64 bits, and \<^verbatim>\<open>endOffset - sequence.size()\<close> is computed modulo \<open>2 ^ 64\<close>.
\<close>

definition find_sequence_in_range ::
  "evaluator \<Rightarrow> u128 \<Rightarrow> u128 \<Rightarrow> u128 \<Rightarrow> u128 list \<Rightarrow> u64 list \<times> outcome" where
  "find_sequence_in_range ctx occurrenceIndex offsetFrom offsetTo params =
     (case sequence_of 3 params of
        Inl f \<Rightarrow> ([], Inl f)
      | Inr sequence \<Rightarrow>
          let bytes = replicate (length sequence) 0x00;
              occurrences = 0;
              bufferSize = getDataSize ctx;
              endOffset = (if offsetTo \<le> offsetFrom then bufferSize
                           else min bufferSize (ucast offsetTo))
          in scan ctx sequence occurrenceIndex (endOffset - word_of_nat (length sequence))
               bytes occurrences (ucast offsetFrom))"

text \<open>
  Two hosts for examples, over a data source \<open>mem\<close>.  A read inside the data fills the
  buffer.  A read that leaves the data is signalled by \<open>strict_host\<close> as a fault and
  ignored by \<open>lenient_host\<close>, which leaves the buffer as it is.
\<close>

definition strict_host :: "u8 list \<Rightarrow> evaluator" where
  "strict_host mem =
     \<lparr>getDataSize = word_of_nat (length mem),
      readData = (\<lambda>address buffer.
        if unat address + length buffer \<le> length mem
        then Inr (take (length buffer) (drop (unat address) mem))
        else Inl (Abort ''read out of bounds''))\<rparr>"

definition lenient_host :: "u8 list \<Rightarrow> evaluator" where
  "lenient_host mem =
     \<lparr>getDataSize = word_of_nat (length mem),
      readData = (\<lambda>address buffer.
        if unat address + length buffer \<le> length mem
        then Inr (take (length buffer) (drop (unat address) mem))
        else Inr buffer)\<rparr>"

subsection \<open>The search as the specification words it\<close>

text \<open>
  The specification's description of \<^verbatim>\<open>find_sequence_in_range\<close>, over mathematical
  offsets.  \<open>mem o n\<close> are the \<open>n\<close> bytes of host memory at offset \<open>o\<close>.  The effective end
  offset is \<open>dataSize\<close> if \<open>offsetTo \<le> offsetFrom\<close>, else \<open>min dataSize offsetTo\<close>; the
  candidate start offsets run from \<open>offsetFrom\<close> up to \<open>endOffset - sequenceLength\<close>
  (exclusive), none when the range is shorter than the sequence; the matches are the
  candidates at which the bytes read equal the sequence; the result is the match whose
  0-based ordinal is \<open>occurrenceIndex\<close>, found scanning from the left, and \<open>-1\<close> when fewer
  matches exist.  The first component lists the offsets read.
\<close>

definition spec_end_offset :: "nat \<Rightarrow> nat \<Rightarrow> nat \<Rightarrow> nat" where
  "spec_end_offset dataSize offsetFrom offsetTo =
     (if offsetTo \<le> offsetFrom then dataSize else min dataSize offsetTo)"

definition spec_candidates :: "nat \<Rightarrow> nat \<Rightarrow> nat \<Rightarrow> nat \<Rightarrow> nat list" where
  "spec_candidates dataSize offsetFrom offsetTo sequenceLength =
     [offsetFrom ..< spec_end_offset dataSize offsetFrom offsetTo - sequenceLength]"

definition spec_matches :: "(nat \<Rightarrow> nat \<Rightarrow> u8 list) \<Rightarrow> u8 list \<Rightarrow> nat list \<Rightarrow> nat list" where
  "spec_matches mem sequence candidates =
     filter (\<lambda>offset. mem offset (length sequence) = sequence) candidates"

definition spec_find_sequence_in_range ::
  "(nat \<Rightarrow> nat \<Rightarrow> u8 list) \<Rightarrow> nat \<Rightarrow> nat \<Rightarrow> nat \<Rightarrow> nat \<Rightarrow> u8 list \<Rightarrow> nat list \<times> literal" where
  "spec_find_sequence_in_range mem dataSize occurrenceIndex offsetFrom offsetTo sequence =
     (let candidates = spec_candidates dataSize offsetFrom offsetTo (length sequence);
          matches = spec_matches mem sequence candidates
      in if occurrenceIndex < length matches
         then ([offsetFrom ..< Suc (matches ! occurrenceIndex)],
               UnsignedInteger (word_of_nat (matches ! occurrenceIndex)))
         else (candidates, SignedInteger (- 1)))"

text \<open>
  The same search from an arbitrary position: the \<open>j\<close>-th offset in \<open>[start, stop)\<close> that
  satisfies \<open>P\<close>, with the offsets visited on the way.
\<close>

definition nth_match :: "(nat \<Rightarrow> bool) \<Rightarrow> nat \<Rightarrow> nat \<Rightarrow> nat \<Rightarrow> nat list \<times> nat option" where
  "nth_match P j start stop =
     (let matches = filter P [start ..< stop]
      in if j < length matches then ([start ..< Suc (matches ! j)], Some (matches ! j))
         else ([start ..< stop], None))"

text \<open>
  A host whose reads inside the data succeed and deliver the bytes of \<open>mem\<close>.  Nothing is
  asked of a read that leaves the data: the host may signal it, ignore it or answer it.
\<close>

definition delivers :: "evaluator \<Rightarrow> (nat \<Rightarrow> nat \<Rightarrow> u8 list) \<Rightarrow> bool" where
  "delivers ctx mem =
     (\<forall>address buffer. unat address + length buffer \<le> unat (getDataSize ctx) \<longrightarrow>
        readData ctx address buffer = Inr (mem (unat address) (length buffer))
        \<and> length (mem (unat address) (length buffer)) = length buffer)"

text \<open>The \<open>n\<close> bytes of a data source at an offset.\<close>

definition slice :: "u8 list \<Rightarrow> nat \<Rightarrow> nat \<Rightarrow> u8 list" where
  "slice mem offset n = take n (drop offset mem)"

text \<open>The bytes of a data source given as a list, zero beyond its end.\<close>

definition bytes_at :: "u8 list \<Rightarrow> nat \<Rightarrow> nat \<Rightarrow> u8 list" where
  "bytes_at mem offset n = map (\<lambda>i. if i < length mem then mem ! i else 0) [offset ..< offset + n]"

definition total_host :: "u8 list \<Rightarrow> evaluator" where
  "total_host mem =
     \<lparr>getDataSize = word_of_nat (length mem),
      readData = (\<lambda>address buffer. Inr (bytes_at mem (unat address) (length buffer)))\<rparr>"

text \<open>What the scan returns when the search from its position has the result \<open>r\<close>.\<close>

definition scan_result :: "nat list \<times> nat option \<Rightarrow> u64 list \<times> outcome" where
  "scan_result r =
     (map word_of_nat (fst r),
      case snd r of
        None \<Rightarrow> Inr (Some (SignedInteger (- 1)))
      | Some m \<Rightarrow> Inr (Some (UnsignedInteger (word_of_nat m))))"

text \<open>Example data: eight bytes with \<open>AA BB\<close> at offset 4, and 8 GiB of zero bytes.\<close>

definition sample :: "u8 list" where
  "sample = [0x00, 0x00, 0x00, 0x00, 0xAA, 0xBB, 0x00, 0x00]"

definition zero_host :: evaluator where
  "zero_host =
     \<lparr>getDataSize = 2 ^ 33,
      readData = (\<lambda>address buffer. Inr (replicate (length buffer) 0x00))\<rparr>"

subsection \<open>read_signed\<close>

text \<open>
  Modelled from the spec: \<^verbatim>\<open>hex::signExtend(numBits, value)\<close> is declared in
  \<^verbatim>\<open>hex/helpers/utils.hpp\<close>, which is not among the sources.  The specification says that it
  sign-extends \<open>n * 8\<close> bits of a raw buffer to 128 bits: bit \<open>numBits - 1\<close> of the value
  is copied to all higher bits, and the bits below are kept.
\<close>

definition signExtend :: "nat \<Rightarrow> i128 \<Rightarrow> i128" where
  "signExtend numBits v = signed_take_bit (numBits - 1) v"

text \<open>
  The object representation of an \<^verbatim>\<open>i128\<close> on the little-endian hosts the program is
  built for: sixteen bytes, least significant first.
\<close>

definition object_bytes :: "i128 \<Rightarrow> u8 list" where
  "object_bytes v = map (\<lambda>i. ucast (drop_bit (8 * i) v)) [0 ..< 16]"

fun value_of_bytes :: "u8 list \<Rightarrow> i128" where
  "value_of_bytes [] = 0"
| "value_of_bytes (b # bs) = ucast b OR push_bit 8 (value_of_bytes bs)"

text \<open>
  \<^verbatim>\<open>read_signed(address, size)\<close>.  The local \<^verbatim>\<open>i128 value\<close> is not initialised:
  \<open>uninitialized\<close> stands for whatever it holds.  \<^verbatim>\<open>readData(address, &value, size)\<close>
  overwrites the first \<open>size\<close> bytes of its object representation.
\<close>

definition read_signed :: "evaluator \<Rightarrow> i128 \<Rightarrow> u128 \<Rightarrow> u128 \<Rightarrow> outcome" where
  "read_signed ctx uninitialized address sz =
     (if sz > 16 then Inl (Abort ''read size out of range'')
      else
        let object = object_bytes uninitialized in
        (case readData ctx (ucast address) (take (unat sz) object) of
           Inl f \<Rightarrow> Inl f
         | Inr bytes \<Rightarrow>
             Inr (Some (SignedInteger
               (signExtend (unat (sz * 8)) (value_of_bytes (bytes @ drop (unat sz) object)))))))"

text \<open>
  The \<open>n\<close> bytes that hold a value written to memory as an \<open>n\<close>-byte little-endian
  integer.
\<close>

definition stored_bytes :: "nat \<Rightarrow> i128 \<Rightarrow> u8 list" where
  "stored_bytes n v = map (\<lambda>i. ucast (drop_bit (8 * i) v)) [0 ..< n]"

subsection \<open>parse_int and parse_float\<close>



















section \<open>Properties\<close>

text \<open>
  C10.  For every argument list, \<^verbatim>\<open>std::sizeof_pack\<close> returns the number of arguments
  it was given as an UnsignedInteger literal: it never aborts, the evaluator state is
  returned as it was, and the 128-bit value read back as a number is the length of the
  argument list (a \<^verbatim>\<open>std::vector\<close> holds fewer than \<open>2 ^ 64\<close> elements).
\<close>

theorem sizeof_pack_counts_arguments:
  "\<exists>n. sizeof_pack ctx params = (ctx, Inr (Some (UnsignedInteger n)))
     \<and> n = word_of_nat (length params)
     \<and> (length params < 2 ^ 64 \<longrightarrow> unat n = length params)"
proof -
  have "length params < 2 ^ 64 \<Longrightarrow> unat (word_of_nat (length params) :: u128) = length params"
    by (simp add: unat_of_nat take_bit_nat_eq_self)
  then show ?thesis
    by (simp add: sizeof_pack_def)
qed

theorem sizeof_pack_counts_arguments_witness:
  "sizeof_pack () [UnsignedInteger 7, String ''ab'', Boolean True]
     = ((), Inr (Some (UnsignedInteger 3)))
   \<and> unat (3 :: u128) = length [UnsignedInteger 7, String ''ab'', Boolean True]"
  using sizeof_pack_counts_arguments [of "()" "[UnsignedInteger 7, String ''ab'', Boolean True]"]
  by simp

text \<open>
  C2.  The claim asks \<^verbatim>\<open>at("hello", 5)\<close> to abort with "character index out of range".
  The guard of the lambda is \<^verbatim>\<open>absIndex > string.length()\<close> for both signs, so the index 5
  passes it and \<^verbatim>\<open>string[5]\<close> is read: the result is the terminating NUL character, not
  an abort.  The other instance of the claim holds: \<^verbatim>\<open>at("hello", -1)\<close> is \<^verbatim>\<open>'o'\<close>, and
  magnitude 6 aborts for both signs.
\<close>

theorem at_hello_5_returns_terminator:
  "at ''hello'' 5 = Inr (Some (Character (CHR 0x00)))
   \<and> at ''hello'' (- 1) = Inr (Some (Character CHR ''o''))
   \<and> at ''hello'' (- 5) = Inr (Some (Character CHR ''h''))
   \<and> at ''hello'' 6 = Inl (Abort ''character index out of range'')
   \<and> at ''hello'' (- 6) = Inl (Abort ''character index out of range'')"
  by (simp add: at_def string_index_def to_size_t_def)

text \<open>
  C3.  The claim asks for a registration of \<^verbatim>\<open>atan2\<close> in \<^verbatim>\<open>std::math\<close> with exactly two
  parameters.  No call registers that name: the lambda computing \<^verbatim>\<open>std::atan2\<close> of its
  first two parameters is registered a second time under the name \<^verbatim>\<open>atan\<close>, with exactly
  one parameter.
\<close>

theorem atan2_registered_as_atan:
  "registered nsStdMath ''atan2'' = []
   \<and> map (\<lambda>r. (parameterCount r, tier r, implementation r)) (registered nsStdMath ''atan'')
       = [(Exactly 1, Standard, Fn_atan), (Exactly 1, Standard, Fn_atan2)]
   \<and> [(namespace r, name r). r \<leftarrow> registerPatternLanguageFunctions, implementation r = Fn_atan2]
       = [(nsStdMath, ''atan'')]"
  by (simp add: registered_def registerPatternLanguageFunctions_def addFunction_def
      addDangerousFunction_def nsStd_def nsStdMem_def nsStdString_def nsStdHttp_def
      nsStdFile_def nsStdMath_def)

subsection \<open>The file handle table\<close>

lemma unmapped_aborts:
  "\<not> contains st h \<Longrightarrow> handle_of c = Some h \<Longrightarrow> invoke api st c = (st, Inl invalid_file)"
  by (cases c)
     (auto simp: contains_def file_close_def file_read_def file_write_def file_seek_def
        file_size_def file_resize_def file_flush_def file_remove_def)

lemma file_open_result:
  "file_open api st path modeEnum = (st', r) \<Longrightarrow>
     (\<exists>msg. r = Inl (Abort msg) \<and> st' = st)
   \<or> (r = Inr (Some (UnsignedInteger (ucast (fileCounter st + 1))))
      \<and> fileCounter st' = fileCounter st + 1
      \<and> (\<exists>f. openFiles st' = emplace (openFiles st) (fileCounter st + 1) f))"
  by (auto simp: file_open_def Let_def split: if_splits option.splits)

lemma invoke_handle_counter:
  "handle_of c = Some h \<Longrightarrow> invoke api st c = (st', r) \<Longrightarrow>
     fileCounter st' = fileCounter st \<and> dom (openFiles st') \<subseteq> dom (openFiles st)
     \<and> opened (c, r) = None"
  by (cases c)
     (auto simp: contains_def file_close_def file_read_def file_write_def file_seek_def
        file_size_def file_resize_def file_flush_def file_remove_def
        split: option.splits if_splits prod.splits)

lemma unat_u32_Suc: "unat (c :: u32) + 1 < 2 ^ 32 \<Longrightarrow> unat (c + 1) = unat c + 1"
  by (simp add: unat_word_ariths)

lemma ucast_u32_u128: "(ucast (c :: u32) :: u128) = word_of_nat (unat c)"
  by simp

lemma invoke_step:
  assumes "invoke api st c = (st', r)" "ids_issued st"
  shows "(opened (c, r) = None \<and> fileCounter st' = fileCounter st \<and> ids_issued st')
       \<or> (opened (c, r) = Some (ucast (fileCounter st + 1))
            \<and> fileCounter st' = fileCounter st + 1
            \<and> (unat (fileCounter st) + 1 < 2 ^ 32 \<longrightarrow> ids_issued st'))"
proof (cases "handle_of c")
  case (Some h)
  from invoke_handle_counter [OF Some assms(1)] assms(2) show ?thesis
    by (auto simp: ids_issued_def subset_iff dom_def)
next
  case None
  then obtain path modeEnum where c: "c = Open path modeEnum"
    by (cases c) auto
  with assms(1) have "file_open api st path modeEnum = (st', r)" by simp
  from file_open_result [OF this] show ?thesis
  proof (elim disjE exE conjE)
    fix msg assume "r = Inl (Abort msg)" "st' = st"
    with assms(2) c show ?thesis by simp
  next
    fix f
    assume r: "r = Inr (Some (UnsignedInteger (ucast (fileCounter st + 1))))"
      and k: "fileCounter st' = fileCounter st + 1"
      and m: "openFiles st' = emplace (openFiles st) (fileCounter st + 1) f"
    have "ids_issued st'" if "unat (fileCounter st) + 1 < 2 ^ 32"
      using assms(2) unat_u32_Suc [OF that]
      by (auto simp: ids_issued_def dom_def k m emplace_def split: if_splits)
    with r k c show ?thesis by simp
  qed
qed

lemma issued_Cons:
  "invoke api st c = (st1, r) \<Longrightarrow>
   issued api st (c # cs) =
     (case opened (c, r) of None \<Rightarrow> issued api st1 cs | Some v \<Rightarrow> v # issued api st1 cs)"
  by (simp add: issued_def split: prod.splits option.splits)

lemma run_Cons:
  "invoke api st c = (st1, r) \<Longrightarrow> fst (run api st (c # cs)) = fst (run api st1 cs)"
  by (simp split: prod.splits)

lemma upt_shift: "[Suc a ..< Suc (a + Suc n)] = Suc a # [Suc (Suc a) ..< Suc (Suc a + n)]"
  by (subst upt_conv_Cons) simp_all

lemma run_issued:
  "ids_issued st \<Longrightarrow> length (issued api st cs) = n \<Longrightarrow> unat (fileCounter st) + n < 2 ^ 32 \<Longrightarrow>
     issued api st cs = map word_of_nat [Suc (unat (fileCounter st)) ..< Suc (unat (fileCounter st) + n)]
   \<and> unat (fileCounter (fst (run api st cs))) = unat (fileCounter st) + n
   \<and> ids_issued (fst (run api st cs))"
proof (induction cs arbitrary: st n)
  case Nil
  then show ?case by (simp add: issued_def)
next
  case (Cons c cs)
  obtain st1 r where i: "invoke api st c = (st1, r)" by (cases "invoke api st c")
  note ic = issued_Cons [OF i, of cs] and rc = run_Cons [OF i, of cs]
  from invoke_step [OF i Cons.prems(1)] show ?case
  proof (elim disjE conjE)
    assume o: "opened (c, r) = None" and k: "fileCounter st1 = fileCounter st" and inv: "ids_issued st1"
    have e: "issued api st (c # cs) = issued api st1 cs"
      using ic o by simp
    have l: "length (issued api st1 cs) = n"
      using Cons.prems(2) by (simp only: e)
    have b: "unat (fileCounter st1) + n < 2 ^ 32"
      using Cons.prems(3) by (simp only: k)
    from Cons.IH [OF inv l b] show ?thesis
      by (simp only: e rc k)
  next
    assume o: "opened (c, r) = Some (ucast (fileCounter st + 1))"
      and k: "fileCounter st1 = fileCounter st + 1"
      and inv: "unat (fileCounter st) + 1 < 2 ^ 32 \<longrightarrow> ids_issued st1"
    have e: "issued api st (c # cs) = ucast (fileCounter st + 1) # issued api st1 cs"
      using ic o by simp
    obtain m where n: "n = Suc m" and l: "length (issued api st1 cs) = m"
      using Cons.prems(2) by (simp add: e)
    from Cons.prems(3) have b: "unat (fileCounter st) + 1 < 2 ^ 32"
      by (simp add: n)
    have u: "unat (fileCounter st1) = Suc (unat (fileCounter st))"
      using unat_u32_Suc [OF b] k by simp
    have inv1: "ids_issued st1" using inv b by simp
    have b1: "unat (fileCounter st1) + m < 2 ^ 32"
      using Cons.prems(3) by (simp add: n u)
    have hd: "(ucast (fileCounter st + 1) :: u128) = word_of_nat (Suc (unat (fileCounter st)))"
      using u k by (simp only: ucast_u32_u128)
    from Cons.IH [OF inv1 l b1] have IH:
      "issued api st1 cs = map word_of_nat
         [Suc (Suc (unat (fileCounter st))) ..< Suc (Suc (unat (fileCounter st)) + m)]"
      "unat (fileCounter (fst (run api st1 cs))) = Suc (unat (fileCounter st)) + m"
      "ids_issued (fst (run api st1 cs))"
      unfolding u by blast+
    have s: "[Suc (unat (fileCounter st)) ..< Suc (unat (fileCounter st) + n)]
        = Suc (unat (fileCounter st)) # [Suc (Suc (unat (fileCounter st))) ..< Suc (Suc (unat (fileCounter st)) + m)]"
      unfolding n by (rule upt_shift)
    show ?thesis
      unfolding e rc s hd list.map using IH by (simp add: n del: upt_Suc of_nat_Suc)
  qed
qed

lemma issued_range_distinct:
  assumes "k < 2 ^ 32"
  shows "distinct (map (word_of_nat :: nat \<Rightarrow> u128) [1 ..< Suc k])"
    and "(0 :: u128) \<notin> set (map word_of_nat [1 ..< Suc k])"
proof -
  have small: "take_bit 128 i = i" if "i \<le> k" for i :: nat
  proof -
    have "i < 2 ^ 128" using that assms by (simp add: order_le_less_trans [where y = "2 ^ 32"])
    then show ?thesis by (simp add: take_bit_nat_eq_self)
  qed
  have "inj_on (word_of_nat :: nat \<Rightarrow> u128) (set [1 ..< Suc k])"
  proof (rule inj_onI)
    fix x y :: nat
    assume "x \<in> set [1 ..< Suc k]" "y \<in> set [1 ..< Suc k]"
    then have "x \<le> k" "y \<le> k" by (simp_all del: upt_Suc)
    moreover assume "(word_of_nat x :: u128) = word_of_nat y"
    ultimately show "x = y" by (simp add: word_of_nat_eq_iff small)
  qed
  then show "distinct (map (word_of_nat :: nat \<Rightarrow> u128) [1 ..< Suc k])"
    by (simp add: distinct_map del: upt_Suc)
  show "(0 :: u128) \<notin> set (map word_of_nat [1 ..< Suc k])"
  proof
    assume "(0 :: u128) \<in> set (map word_of_nat [1 ..< Suc k])"
    then obtain i where i: "1 \<le> i" "i \<le> k" "(word_of_nat i :: u128) = 0"
      by (auto simp del: upt_Suc)
    from i(3) have "take_bit 128 i = (0 :: nat)"
      using word_of_nat_eq_iff [of i 0, where ?'a = 128] by simp
    with small [OF i(2)] i(1) show False by simp
  qed
qed

text \<open>
  C6.  The claim holds until the 32-bit counter wraps.  Amended claim: for every sequence of
  file builtin calls run from the initial table during which fewer than \<open>2 ^ 32\<close> calls of
  \<^verbatim>\<open>open\<close> succeed, the ids returned by the successful opens are the UnsignedInteger
  literals \<open>1, 2, \<dots>, k\<close> in this order (so they are pairwise distinct, never reused and
  never 0, and the first is 1), the counter ends at \<open>k\<close>, and every id mapped in the table
  is one of them; and every successful \<^verbatim>\<open>open\<close> (without restriction) increments the
  counter and returns its new value as an UnsignedInteger literal.
\<close>

theorem handle_ids_consecutive:
  assumes "length (issued api init_table cs) < 2 ^ 32"
  shows "issued api init_table cs = map word_of_nat [1 ..< Suc (length (issued api init_table cs))]
    \<and> distinct (issued api init_table cs)
    \<and> 0 \<notin> set (issued api init_table cs)
    \<and> unat (fileCounter (fst (run api init_table cs))) = length (issued api init_table cs)
    \<and> (\<forall>k \<in> dom (openFiles (fst (run api init_table cs))).
          1 \<le> unat k \<and> unat k \<le> length (issued api init_table cs))
    \<and> (\<forall>st path modeEnum st' v. file_open api st path modeEnum = (st', Inr (Some v)) \<longrightarrow>
          v = UnsignedInteger (ucast (fileCounter st + 1)) \<and> fileCounter st' = fileCounter st + 1)"
proof -
  have i: "ids_issued (init_table :: 'a file_table)"
    by (simp add: ids_issued_def init_table_def)
  have z: "unat (fileCounter (init_table :: 'a file_table)) = 0"
    by (simp add: init_table_def)
  have b: "unat (fileCounter (init_table :: 'a file_table)) + length (issued api init_table cs) < 2 ^ 32"
    using assms by (simp only: z)
  from run_issued [OF i refl b] have
    r1: "issued api init_table cs = map word_of_nat [1 ..< Suc (length (issued api init_table cs))]" and
    r2: "unat (fileCounter (fst (run api init_table cs))) = length (issued api init_table cs)" and
    r3: "ids_issued (fst (run api init_table cs))"
    unfolding z One_nat_def add_0 by blast+
  from r3 have r4: "\<forall>k \<in> dom (openFiles (fst (run api init_table cs))).
      1 \<le> unat k \<and> unat k \<le> length (issued api init_table cs)"
    unfolding ids_issued_def r2 .
  have r5: "distinct (issued api init_table cs)" and r6: "0 \<notin> set (issued api init_table cs)"
    using issued_range_distinct [OF assms] r1 by metis+
  have r7: "\<forall>st path modeEnum st' v. file_open api st path modeEnum = (st', Inr (Some v)) \<longrightarrow>
          v = UnsignedInteger (ucast (fileCounter st + 1)) \<and> fileCounter st' = fileCounter st + 1"
    using file_open_result by fastforce
  from r1 r2 r4 r5 r6 r7 show ?thesis by blast
qed

lemma three_calls_issued: "issued example_fs init_table three_calls = [1, 2, 3]"
  by (simp add: issued_def three_calls_def init_table_def file_open_def file_close_def
      example_fs_def emplace_def contains_def key_of_def List.map_filter_simps Let_def)

theorem handle_ids_consecutive_witness:
  "length (issued example_fs init_table three_calls) < 2 ^ 32
   \<and> issued example_fs init_table three_calls = [1, 2, 3]
   \<and> unat (fileCounter (fst (run example_fs init_table three_calls))) = 3"
  using handle_ids_consecutive [of example_fs three_calls]
  by (simp add: three_calls_issued)

lemma run_opens:
  "File_isValid api (File_open api path Create) \<Longrightarrow>
   snd (run api st (replicate n (Open path 3)))
     = map (\<lambda>i. Inr (Some (UnsignedInteger (ucast (fileCounter st + word_of_nat i))))) [1 ..< Suc n]"
proof (induction n arbitrary: st)
  case 0
  then show ?case by simp
next
  case (Suc n)
  define st1 where "st1 = fst (file_open api st path 3)"
  have o: "file_open api st path 3 = (st1, Inr (Some (UnsignedInteger (ucast (fileCounter st + 1)))))"
    and k: "fileCounter st1 = fileCounter st + 1"
    using Suc.prems by (simp_all add: st1_def file_open_def Let_def)
  have sh: "[1 ..< Suc (Suc n)] = 1 # map Suc [1 ..< Suc n]"
    by (simp only: One_nat_def map_Suc_upt) (simp add: upt_conv_Cons del: upt_Suc)
  show ?case
    using Suc.IH [OF Suc.prems, of st1]
    by (simp only: replicate_Suc run.simps invoke.simps o sh k) (simp add: o_def add.assoc split_beta del: upt_Suc)
qed

text \<open>
  The claim as stated (for any sequence of calls, 0 is never issued and no id is reused)
  fails: \<^verbatim>\<open>fileCounter\<close> is a \<^verbatim>\<open>u32\<close>, and the \<open>2 ^ 32\<close>-th successful \<^verbatim>\<open>open\<close>
  increments it from \<open>2 ^ 32 - 1\<close> to 0 and returns the id 0.
\<close>

theorem counter_wraps_to_zero:
  "last (snd (run example_fs init_table (replicate (2 ^ 32) (Open ''a.bin'' 3))))
     = Inr (Some (UnsignedInteger 0))"
proof -
  have v: "File_isValid example_fs (File_open example_fs ''a.bin'' Create)"
    by (simp add: example_fs_def)
  have n: "(2 :: nat) ^ 32 = Suc (2 ^ 32 - 1)" by simp
  show ?thesis
    unfolding run_opens [OF v]
    by (subst n, simp only: upt_Suc_append) (simp add: init_table_def)
qed

subsection \<open>Handles that are closed or removed\<close>

lemma mapped_iff_entry:
  "mapped st h \<longleftrightarrow> (\<exists>k. openFiles st k \<noteq> None \<and> unat k = unat h)"
proof
  assume m: "mapped st h"
  then have "unat (key_of h) = unat h"
    by (simp add: mapped_def key_of_def unsigned_ucast_eq take_bit_nat_eq_self)
  with m show "\<exists>k. openFiles st k \<noteq> None \<and> unat k = unat h"
    by (auto simp: mapped_def)
next
  assume "\<exists>k. openFiles st k \<noteq> None \<and> unat k = unat h"
  then obtain k where k: "openFiles st k \<noteq> None" "unat k = unat h"
    by blast
  have b: "unat h < 2 ^ 32"
    using unsigned_less [of k, where ?'a = nat] k(2) by simp
  have "key_of h = word_of_nat (unat h)"
    by (simp add: key_of_def)
  also have "\<dots> = k"
    by (simp flip: k(2))
  finally show "mapped st h"
    using k(1) b by (simp add: mapped_def)
qed

lemma mapped_contains: "mapped st h \<Longrightarrow> contains st h"
  by (simp add: mapped_def contains_def)

lemma small_unmapped: "unat h < 2 ^ 32 \<Longrightarrow> \<not> mapped st h \<Longrightarrow> \<not> contains st h"
  by (simp add: mapped_def contains_def)

lemma unat_key_of: "unat h < 2 ^ 32 \<Longrightarrow> unat (key_of h) = unat h"
  by (simp add: key_of_def unsigned_ucast_eq take_bit_nat_eq_self)

lemma issued_append:
  "issued api st (xs @ ys) = issued api st xs @ issued api (fst (run api st xs)) ys"
proof (induction xs arbitrary: st)
  case Nil
  then show ?case by (simp add: issued_def)
next
  case (Cons c xs)
  obtain st1 r where i: "invoke api st c = (st1, r)" by (cases "invoke api st c")
  have "issued api st ((c # xs) @ ys) =
      (case opened (c, r) of None \<Rightarrow> issued api st1 (xs @ ys) | Some v \<Rightarrow> v # issued api st1 (xs @ ys))"
    using issued_Cons [OF i, of "xs @ ys"] by simp
  then show ?case
    by (simp only: Cons.IH issued_Cons [OF i, of xs] run_Cons [OF i, of xs])
      (simp split: option.splits)
qed

lemma run_append:
  "fst (run api st (xs @ ys)) = fst (run api (fst (run api st xs)) ys)"
proof (induction xs arbitrary: st)
  case Nil
  then show ?case by simp
next
  case (Cons c xs)
  obtain st1 r where i: "invoke api st c = (st1, r)" by (cases "invoke api st c")
  show ?case
    using Cons.IH [of st1] run_Cons [OF i, of "xs @ ys"] run_Cons [OF i, of xs]
    by simp
qed

lemma invoke_retired:
  assumes "invoke api st c = (st', r)" "retired st k"
  shows "(opened (c, r) = None \<and> fileCounter st' = fileCounter st \<and> retired st' k)
       \<or> (opened (c, r) = Some (ucast (fileCounter st + 1))
            \<and> fileCounter st' = fileCounter st + 1
            \<and> (unat (fileCounter st) + 1 < 2 ^ 32 \<longrightarrow> retired st' k))"
proof (cases "handle_of c")
  case (Some h)
  from invoke_handle_counter [OF Some assms(1)] assms(2) show ?thesis
    by (auto simp: retired_def subset_iff dom_def)
next
  case None
  then obtain path modeEnum where c: "c = Open path modeEnum"
    by (cases c) auto
  with assms(1) have "file_open api st path modeEnum = (st', r)" by simp
  from file_open_result [OF this] show ?thesis
  proof (elim disjE exE conjE)
    fix msg assume "r = Inl (Abort msg)" "st' = st"
    with assms(2) c show ?thesis by simp
  next
    fix f
    assume r: "r = Inr (Some (UnsignedInteger (ucast (fileCounter st + 1))))"
      and n: "fileCounter st' = fileCounter st + 1"
      and m: "openFiles st' = emplace (openFiles st) (fileCounter st + 1) f"
    have "retired st' k" if "unat (fileCounter st) + 1 < 2 ^ 32"
      using assms(2) unat_u32_Suc [OF that]
      by (auto simp: retired_def n m emplace_def split: if_splits)
    with r n c show ?thesis by simp
  qed
qed

lemma run_retired:
  "retired st k \<Longrightarrow> length (issued api st cs) = n \<Longrightarrow> unat (fileCounter st) + n < 2 ^ 32 \<Longrightarrow>
     retired (fst (run api st cs)) k
     \<and> unat (fileCounter (fst (run api st cs))) = unat (fileCounter st) + n"
proof (induction cs arbitrary: st n)
  case Nil
  then show ?case by (simp add: issued_def)
next
  case (Cons c cs)
  obtain st1 r where i: "invoke api st c = (st1, r)" by (cases "invoke api st c")
  note ic = issued_Cons [OF i, of cs] and rc = run_Cons [OF i, of cs]
  from invoke_retired [OF i Cons.prems(1)] show ?case
  proof (elim disjE conjE)
    assume o: "opened (c, r) = None" and k: "fileCounter st1 = fileCounter st" and inv: "retired st1 k"
    have e: "issued api st (c # cs) = issued api st1 cs"
      using ic o by simp
    have l: "length (issued api st1 cs) = n"
      using Cons.prems(2) by (simp only: e)
    have b: "unat (fileCounter st1) + n < 2 ^ 32"
      using Cons.prems(3) by (simp only: k)
    from Cons.IH [OF inv l b] show ?thesis
      by (simp only: rc k)
  next
    assume o: "opened (c, r) = Some (ucast (fileCounter st + 1))"
      and k: "fileCounter st1 = fileCounter st + 1"
      and inv: "unat (fileCounter st) + 1 < 2 ^ 32 \<longrightarrow> retired st1 k"
    have e: "issued api st (c # cs) = ucast (fileCounter st + 1) # issued api st1 cs"
      using ic o by simp
    obtain m where n: "n = Suc m" and l: "length (issued api st1 cs) = m"
      using Cons.prems(2) by (simp add: e)
    from Cons.prems(3) have b: "unat (fileCounter st) + 1 < 2 ^ 32"
      by (simp add: n)
    have u: "unat (fileCounter st1) = Suc (unat (fileCounter st))"
      using unat_u32_Suc [OF b] k by simp
    have inv1: "retired st1 k" using inv b by simp
    have b1: "unat (fileCounter st1) + m < 2 ^ 32"
      using Cons.prems(3) by (simp add: n u)
    from Cons.IH [OF inv1 l b1] show ?thesis
      by (simp only: rc u n) simp
  qed
qed

lemma closed_stays_unmapped:
  assumes total: "length (issued api init_table (pre @ Close h # post)) < 2 ^ 32"
    and m: "mapped (fst (run api init_table pre)) h"
  shows "file_close (fst (run api init_table pre)) h
      = ((fst (run api init_table pre))
           \<lparr>openFiles := (openFiles (fst (run api init_table pre)))(key_of h := None)\<rparr>, Inr None)"
    and "\<not> contains (fst (run api init_table (pre @ Close h # post))) h"
proof -
  let ?st = "fst (run api init_table pre)"
  let ?st' = "?st\<lparr>openFiles := (openFiles ?st)(key_of h := None)\<rparr>"
  show c: "file_close ?st h = (?st', Inr None)"
    using mapped_contains [OF m] by (simp add: file_close_def)
  have i: "invoke api ?st (Close h) = (?st', Inr None)"
    using c by simp
  have split: "issued api init_table (pre @ Close h # post)
      = issued api init_table pre @ issued api ?st' post"
    using issued_Cons [OF i, of post] by (simp add: issued_append)
  have lp: "length (issued api init_table pre) < 2 ^ 32"
    using total by (simp add: split)
  have z: "unat (fileCounter (init_table :: 'a file_table)) = 0"
    by (simp add: init_table_def)
  have "ids_issued (init_table :: 'a file_table)"
    by (simp add: ids_issued_def init_table_def)
  from run_issued [OF this refl, of api pre] lp
  have cnt: "unat (fileCounter ?st) = length (issued api init_table pre)"
    and inv: "ids_issued ?st"
    by (simp_all only: z add_0)
  have "key_of h \<in> dom (openFiles ?st)"
    using m by (auto simp: mapped_def)
  with inv have "unat (key_of h) \<le> unat (fileCounter ?st)"
    by (simp add: ids_issued_def)
  then have r: "retired ?st' (key_of h)"
    by (simp add: retired_def)
  have b: "unat (fileCounter ?st') + length (issued api ?st' post) < 2 ^ 32"
    using total by (simp add: split cnt)
  from run_retired [OF r refl b] have "retired (fst (run api ?st' post)) (key_of h)"
    by blast
  moreover have "fst (run api init_table (pre @ Close h # post)) = fst (run api ?st' post)"
    using run_Cons [OF i, of post] by (simp only: run_append)
  ultimately show "\<not> contains (fst (run api init_table (pre @ Close h # post))) h"
    by (simp add: retired_def contains_def)
qed

text \<open>
  C5.  Amended claim: in a table reached from the initial one by any calls \<open>pre\<close>, for
  every handle \<open>h\<close> that is mapped (the id of an entry, hence below \<open>2 ^ 32\<close>),
  \<^verbatim>\<open>close(h)\<close> returns no value and erases exactly the mapping for \<open>h\<close>; after any further
  calls \<open>post\<close>, as long as fewer than \<open>2 ^ 32\<close> opens have succeeded in all (so that the
  counter has not wrapped and reissued \<open>h\<close>), \<open>h\<close> is not mapped and every file operation
  applied to \<open>h\<close> (close, read, write, seek, size, resize, flush, remove) aborts with
  "failed to access invalid file" and leaves the table unchanged.  In any table,
  \<^verbatim>\<open>close(h')\<close> for a handle \<open>h'\<close> below \<open>2 ^ 32\<close> that is not mapped aborts with the same
  message and leaves the table unchanged.
\<close>

theorem close_invalidates_handle:
  "(length (issued api init_table (pre @ Close h # post)) < 2 ^ 32
      \<and> mapped (fst (run api init_table pre)) h \<longrightarrow>
     file_close (fst (run api init_table pre)) h
       = ((fst (run api init_table pre))
            \<lparr>openFiles := (openFiles (fst (run api init_table pre)))(key_of h := None)\<rparr>, Inr None)
     \<and> \<not> mapped (fst (run api init_table (pre @ Close h # post))) h
     \<and> (\<forall>c. handle_of c = Some h \<longrightarrow>
           invoke api (fst (run api init_table (pre @ Close h # post))) c
             = (fst (run api init_table (pre @ Close h # post)),
                Inl (Abort ''failed to access invalid file''))))
   \<and> (unat h' < 2 ^ 32 \<and> \<not> mapped st h' \<longrightarrow>
        file_close st h' = (st, Inl (Abort ''failed to access invalid file'')))"
proof (intro conjI impI; (elim conjE)?)
  assume a: "length (issued api init_table (pre @ Close h # post)) < 2 ^ 32"
    "mapped (fst (run api init_table pre)) h"
  note u = closed_stays_unmapped(2) [OF a]
  show "file_close (fst (run api init_table pre)) h
       = ((fst (run api init_table pre))
            \<lparr>openFiles := (openFiles (fst (run api init_table pre)))(key_of h := None)\<rparr>, Inr None)"
    using a by (rule closed_stays_unmapped(1))
  show "\<not> mapped (fst (run api init_table (pre @ Close h # post))) h"
    using u mapped_contains by blast
  show "\<forall>c. handle_of c = Some h \<longrightarrow>
           invoke api (fst (run api init_table (pre @ Close h # post))) c
             = (fst (run api init_table (pre @ Close h # post)),
                Inl (Abort ''failed to access invalid file''))"
    using unmapped_aborts [OF u] by (simp add: invalid_file_def)
next
  assume "unat h' < 2 ^ 32" "\<not> mapped st h'"
  then have "\<not> contains st h'"
    by (rule small_unmapped)
  then show "file_close st h' = (st, Inl (Abort ''failed to access invalid file''))"
    by (simp add: file_close_def invalid_file_def)
qed

lemma key_of_examples: "key_of 1 = 1" "key_of 2 = 2" "key_of 4294967297 = 1"
  by code_simp+

lemma reopen_steps:
  "invoke example_fs init_table (Open ''a.bin'' 3) = (one_file, Inr (Some (UnsignedInteger 1)))"
  "invoke example_fs one_file (Close 1) = (\<lparr>fileCounter = 1, openFiles = Map.empty\<rparr>, Inr None)"
  "invoke example_fs \<lparr>fileCounter = 1, openFiles = Map.empty\<rparr> (Open ''b.bin'' 1)
     = (\<lparr>fileCounter = 2, openFiles = [2 \<mapsto> (''b.bin'', False)]\<rparr>,
        Inr (Some (UnsignedInteger 2)))"
  by (simp_all add: init_table_def one_file_def file_open_def file_close_def example_fs_def
      emplace_def contains_def key_of_examples Let_def)

lemma reopen_script:
  "issued example_fs init_table ([Open ''a.bin'' 3] @ Close 1 # [Open ''b.bin'' 1]) = [1, 2]"
  "fst (run example_fs init_table [Open ''a.bin'' 3]) = one_file"
  "fst (run example_fs init_table ([Open ''a.bin'' 3] @ Close 1 # [Open ''b.bin'' 1]))
     = \<lparr>fileCounter = 2, openFiles = [2 \<mapsto> (''b.bin'', False)]\<rparr>"
  by (simp_all add: issued_def reopen_steps List.map_filter_simps del: invoke.simps)

theorem close_invalidates_handle_witness:
  "file_close one_file 1 = (\<lparr>fileCounter = 1, openFiles = Map.empty\<rparr>, Inr None)
   \<and> invoke example_fs \<lparr>fileCounter = 2, openFiles = [2 \<mapsto> (''b.bin'', False)]\<rparr> (ReadFile 1 4)
       = (\<lparr>fileCounter = 2, openFiles = [2 \<mapsto> (''b.bin'', False)]\<rparr>,
          Inl (Abort ''failed to access invalid file''))
   \<and> file_close one_file 2 = (one_file, Inl (Abort ''failed to access invalid file''))"
proof -
  have m: "mapped one_file 1" "\<not> mapped one_file 2" "unat (2 :: u128) < 2 ^ 32"
    by (simp_all add: mapped_def one_file_def key_of_examples)
  have o: "one_file\<lparr>openFiles := (openFiles one_file)(key_of 1 := None)\<rparr>
      = \<lparr>fileCounter = 1, openFiles = Map.empty\<rparr>"
    by (simp add: one_file_def key_of_examples)
  note t = close_invalidates_handle
    [of example_fs "[Open ''a.bin'' 3]" 1 "[Open ''b.bin'' 1]" 2 one_file, unfolded reopen_script o]
  from t m have c: "file_close one_file 1 = (\<lparr>fileCounter = 1, openFiles = Map.empty\<rparr>, Inr None)"
    and a: "\<forall>c. handle_of c = Some 1 \<longrightarrow>
        invoke example_fs \<lparr>fileCounter = 2, openFiles = [2 \<mapsto> (''b.bin'', False)]\<rparr> c
          = (\<lparr>fileCounter = 2, openFiles = [2 \<mapsto> (''b.bin'', False)]\<rparr>,
             Inl (Abort ''failed to access invalid file''))"
    and u: "file_close one_file 2 = (one_file, Inl (Abort ''failed to access invalid file''))"
    by simp_all
  from a have "invoke example_fs \<lparr>fileCounter = 2, openFiles = [2 \<mapsto> (''b.bin'', False)]\<rparr>
      (ReadFile 1 4)
    = (\<lparr>fileCounter = 2, openFiles = [2 \<mapsto> (''b.bin'', False)]\<rparr>,
       Inl (Abort ''failed to access invalid file''))"
    by (simp del: invoke.simps)
  with c u show ?thesis by blast
qed

lemma file_open_maps_counter:
  assumes "File_isValid api (File_open api path Create)"
  shows "fileCounter (fst (file_open api st path 3)) = fileCounter st + 1"
    and "openFiles (fst (file_open api st path 3)) (fileCounter st + 1) \<noteq> None"
  using assms by (simp_all add: file_open_def Let_def emplace_def)

lemma run_opens_last:
  assumes "File_isValid api (File_open api path Create)"
  shows "fileCounter (fst (run api st (replicate n (Open path 3)))) = fileCounter st + word_of_nat n
    \<and> (0 < n \<longrightarrow> openFiles (fst (run api st (replicate n (Open path 3))))
                   (fileCounter st + word_of_nat n) \<noteq> None)"
proof (induction n arbitrary: st)
  case 0
  then show ?case by simp
next
  case (Suc n)
  let ?st1 = "fst (file_open api st path 3)"
  have i: "invoke api st (Open path 3) = (?st1, snd (file_open api st path 3))"
    by simp
  have r: "fst (run api st (replicate (Suc n) (Open path 3)))
      = fst (run api ?st1 (replicate n (Open path 3)))"
    using run_Cons [OF i, of "replicate n (Open path 3)"] by simp
  note o = file_open_maps_counter [OF assms, of st]
  have "fileCounter (fst (run api ?st1 (replicate n (Open path 3))))
        = fileCounter st + word_of_nat (Suc n)
      \<and> openFiles (fst (run api ?st1 (replicate n (Open path 3))))
          (fileCounter st + word_of_nat (Suc n)) \<noteq> None"
  proof (cases "n = 0")
    case True
    with o show ?thesis by simp
  next
    case False
    then have "0 < n" by simp
    with Suc.IH [of ?st1] o(1) show ?thesis
      by (simp add: add.assoc)
  qed
  then show ?case
    unfolding r by blast
qed

text \<open>
  The claim as stated (for every handle, in every later state) fails in two ways.  The
  table is keyed by \<^verbatim>\<open>u32\<close> and the builtins convert the 128-bit handle to the key: with
  only id 1 open, the handle \<open>2 ^ 32 + 1\<close> is not mapped, yet \<^verbatim>\<open>close(2 ^ 32 + 1)\<close> does
  not abort and closes file 1.  And after \<^verbatim>\<open>close(1)\<close>, \<open>2 ^ 32\<close> further successful
  opens wrap the counter and issue the id 1 again, so that \<^verbatim>\<open>read(1, 0)\<close> succeeds.
\<close>

theorem handle_reissued_and_truncated:
  "\<not> mapped one_file (2 ^ 32 + 1)
   \<and> file_close one_file (2 ^ 32 + 1) = (\<lparr>fileCounter = 1, openFiles = Map.empty\<rparr>, Inr None)
   \<and> snd (invoke example_fs
        (fst (run example_fs (fst (file_close one_file 1)) (replicate (2 ^ 32) (Open ''a.bin'' 3))))
        (ReadFile 1 0)) = Inr (Some (String []))"
proof -
  have a: "\<not> mapped (one_file :: (string \<times> bool) file_table) (2 ^ 32 + 1)"
    by (simp add: mapped_def)
  have b: "file_close one_file (2 ^ 32 + 1) = (\<lparr>fileCounter = 1, openFiles = Map.empty\<rparr>, Inr None)"
    by (simp add: file_close_def contains_def key_of_examples one_file_def)
  have v: "File_isValid example_fs (File_open example_fs ''a.bin'' Create)"
    by (simp add: example_fs_def)
  let ?st = "fst (run example_fs (fst (file_close one_file 1)) (replicate (2 ^ 32) (Open ''a.bin'' 3)))"
  have c0: "fileCounter (fst (file_close one_file 1)) = 1"
    by (simp add: file_close_def one_file_def)
  have w: "(1 :: u32) + word_of_nat (2 ^ 32) = 1"
    by simp
  have "openFiles ?st (key_of 1) \<noteq> None"
    using run_opens_last [OF v, of "fst (file_close one_file 1)" "2 ^ 32"]
    unfolding c0 w by (simp add: key_of_examples)
  then obtain f where "openFiles ?st (key_of 1) = Some f"
    by blast
  then have "snd (invoke example_fs ?st (ReadFile 1 0)) = Inr (Some (String []))"
    by (simp add: file_read_def example_fs_def)
  with a b show ?thesis by blast
qed

text \<open>
  C7.  Amended claim: for a mapped id, \<^verbatim>\<open>remove(id)\<close> calls \<^verbatim>\<open>remove()\<close> on the mapped
  file object and returns no value; the entry is not erased: the id stays mapped (to the
  file object as \<^verbatim>\<open>remove()\<close> left it), and the set of mapped ids, every other entry and
  the counter are unchanged.  For an id below \<open>2 ^ 32\<close> that is not mapped it aborts with
  "failed to access invalid file" and leaves the table unchanged.
\<close>

theorem remove_keeps_table_entry:
  "(mapped st file \<longrightarrow>
      (\<exists>st' f. file_remove api st file = (st', Inr None)
          \<and> openFiles st (key_of file) = Some f
          \<and> openFiles st' = (openFiles st)(key_of file \<mapsto> File_remove api f)
          \<and> mapped st' file
          \<and> dom (openFiles st') = dom (openFiles st)
          \<and> (\<forall>k. k \<noteq> key_of file \<longrightarrow> openFiles st' k = openFiles st k)
          \<and> fileCounter st' = fileCounter st))
   \<and> (unat file < 2 ^ 32 \<and> \<not> mapped st file \<longrightarrow>
        file_remove api st file = (st, Inl (Abort ''failed to access invalid file'')))"
  by (auto simp: mapped_def file_remove_def invalid_file_def)

theorem remove_keeps_table_entry_witness:
  "file_remove example_fs one_file 1
       = (\<lparr>fileCounter = 1, openFiles = [1 \<mapsto> (''a.bin'', True)]\<rparr>, Inr None)
   \<and> mapped \<lparr>fileCounter = 1, openFiles = [1 \<mapsto> (''a.bin'', True)]\<rparr> 1
   \<and> file_remove example_fs one_file 2 = (one_file, Inl (Abort ''failed to access invalid file''))"
proof -
  have m: "mapped one_file 1" "\<not> mapped one_file 2" "unat (2 :: u128) < 2 ^ 32"
    by (simp_all add: mapped_def one_file_def key_of_examples)
  show ?thesis
    using remove_keeps_table_entry [of one_file 1 example_fs]
      remove_keeps_table_entry [of one_file 2 example_fs] m
    by (auto simp: one_file_def key_of_examples example_fs_def mapped_def)
qed

text \<open>
  The claim as stated (every id that is not mapped aborts) fails for ids of \<open>2 ^ 32\<close> or
  more: with only id 1 open, \<^verbatim>\<open>remove(2 ^ 32 + 1)\<close> does not abort and removes file 1.
\<close>

theorem remove_truncates_handle:
  "\<not> mapped one_file (2 ^ 32 + 1)
   \<and> file_remove example_fs one_file (2 ^ 32 + 1)
       = (\<lparr>fileCounter = 1, openFiles = [1 \<mapsto> (''a.bin'', True)]\<rparr>, Inr None)"
  by (simp add: mapped_def file_remove_def key_of_examples one_file_def example_fs_def)

subsection \<open>The sequence search\<close>

lemma nth_match_done: "\<not> start < stop \<Longrightarrow> nth_match P j start stop = ([], None)"
  by (simp add: nth_match_def)

lemma filter_upt_nth_ge:
  "j < length (filter P [a ..< b]) \<Longrightarrow> a \<le> filter P [a ..< b] ! j"
proof -
  assume "j < length (filter P [a ..< b])"
  then have "filter P [a ..< b] ! j \<in> set (filter P [a ..< b])"
    by (rule nth_mem)
  then show ?thesis by simp
qed

lemma nth_match_hit:
  "start < stop \<Longrightarrow> P start \<Longrightarrow> nth_match P 0 start stop = ([start], Some start)"
  by (simp add: nth_match_def upt_conv_Cons)

lemma nth_match_skip:
  assumes "start < stop" "P start"
  shows "nth_match P (Suc j) start stop =
           (start # fst (nth_match P j (Suc start) stop), snd (nth_match P j (Suc start) stop))"
proof -
  have u: "[start ..< stop] = start # [Suc start ..< stop]"
    using assms(1) by (rule upt_conv_Cons)
  show ?thesis
  proof (cases "j < length (filter P [Suc start ..< stop])")
    case True
    from filter_upt_nth_ge [OF True] have "start < Suc (filter P [Suc start ..< stop] ! j)"
      by simp
    then have "[start ..< Suc (filter P [Suc start ..< stop] ! j)]
        = start # [Suc start ..< Suc (filter P [Suc start ..< stop] ! j)]"
      by (rule upt_conv_Cons)
    with True assms(2) show ?thesis
      by (simp add: nth_match_def Let_def u del: upt_Suc)
  next
    case False
    with assms(2) show ?thesis
      by (simp add: nth_match_def Let_def u del: upt_Suc)
  qed
qed

lemma nth_match_miss:
  assumes "start < stop" "\<not> P start"
  shows "nth_match P j start stop =
           (start # fst (nth_match P j (Suc start) stop), snd (nth_match P j (Suc start) stop))"
proof -
  have u: "[start ..< stop] = start # [Suc start ..< stop]"
    using assms(1) by (rule upt_conv_Cons)
  show ?thesis
  proof (cases "j < length (filter P [Suc start ..< stop])")
    case True
    from filter_upt_nth_ge [OF True] have "start < Suc (filter P [Suc start ..< stop] ! j)"
      by simp
    then have "[start ..< Suc (filter P [Suc start ..< stop] ! j)]
        = start # [Suc start ..< Suc (filter P [Suc start ..< stop] ! j)]"
      by (rule upt_conv_Cons)
    with True assms(2) show ?thesis
      by (simp add: nth_match_def Let_def u del: upt_Suc)
  next
    case False
    with assms(2) show ?thesis
      by (simp add: nth_match_def Let_def u del: upt_Suc)
  qed
qed

lemma logged_scan_result:
  "logged offset (scan_result r) = scan_result (unat offset # fst r, snd r)"
  by (simp add: logged_def scan_result_def)

lemma unat_u64_Suc: "(offset :: u64) < limit \<Longrightarrow> unat (offset + 1) = Suc (unat offset)"
proof -
  assume "offset < limit"
  then have "unat offset < unat limit"
    by (simp add: word_less_nat_alt)
  then show ?thesis
    using unsigned_less [of limit, where ?'a = nat] by (simp add: unat_word_ariths)
qed

lemma counter_less:
  "(ucast (occurrences :: u32) < (occurrenceIndex :: u128)) = (unat occurrences < unat occurrenceIndex)"
proof -
  have "unat (ucast occurrences :: u128) = unat occurrences"
    by (simp add: unsigned_ucast_eq take_bit_nat_eq_self
        order_less_trans [OF unsigned_less [of occurrences, where ?'a = nat]])
  then show ?thesis
    by (simp add: word_less_nat_alt)
qed

lemma counter_Suc:
  "unat (occurrences :: u32) < unat (occurrenceIndex :: u128) \<Longrightarrow> unat occurrenceIndex < 2 ^ 32 \<Longrightarrow>
   unat (occurrences + 1) = Suc (unat occurrences)"
  by (simp add: unat_word_ariths)

lemma scan_refines:
  "delivers ctx mem \<Longrightarrow> unat occurrenceIndex < 2 ^ 32 \<Longrightarrow>
   unat limit + length sequence \<le> unat (getDataSize ctx) \<Longrightarrow>
   length bytes = length sequence \<Longrightarrow> unat occurrences \<le> unat occurrenceIndex \<Longrightarrow>
     scan ctx sequence occurrenceIndex limit bytes occurrences offset =
       scan_result (nth_match (\<lambda>offset. mem offset (length sequence) = sequence)
         (unat occurrenceIndex - unat occurrences) (unat offset) (unat limit))"
proof (induction ctx sequence occurrenceIndex limit bytes occurrences offset rule: scan.induct)
  case (1 ctx sequence occurrenceIndex limit bytes occurrences offset)
  let ?P = "\<lambda>offset. mem offset (length sequence) = sequence"
  let ?bytes' = "mem (unat offset) (length bytes)"
  show ?case
  proof (cases "offset < limit")
    case False
    then have "\<not> unat offset < unat limit"
      by (simp add: word_less_nat_alt)
    then show ?thesis
      by (subst scan.simps) (simp add: False nth_match_done scan_result_def)
  next
    case True
    then have lt: "unat offset < unat limit"
      by (simp add: word_less_nat_alt)
    then have "unat offset + length bytes \<le> unat (getDataSize ctx)"
      using "1.prems"(3,4) by simp
    then have rd: "readData ctx offset bytes = Inr ?bytes'"
      and len': "length ?bytes' = length sequence"
      using "1.prems"(1,4) by (simp_all add: delivers_def)
    note su = unat_u64_Suc [OF True]
    show ?thesis
    proof (cases "?bytes' = sequence")
      case match: True
      then have P: "?P (unat offset)"
        using "1.prems"(4) by simp
      show ?thesis
      proof (cases "unat occurrences < unat occurrenceIndex")
        case less: True
        then have cl: "ucast occurrences < occurrenceIndex"
          by (simp add: counter_less)
        have cs: "unat (occurrences + 1) = Suc (unat occurrences)"
          using counter_Suc [OF less "1.prems"(2)] .
        have j: "unat occurrenceIndex - unat occurrences
            = Suc (unat occurrenceIndex - unat (occurrences + 1))"
          using less cs by simp
        have le: "unat (occurrences + 1) \<le> unat occurrenceIndex"
          using less cs by simp
        have IH: "scan ctx sequence occurrenceIndex limit sequence (occurrences + 1) (offset + 1)
            = scan_result (nth_match ?P (unat occurrenceIndex - unat (occurrences + 1))
                (Suc (unat offset)) (unat limit))"
          using "1.IH"(1) [OF True rd match cl "1.prems"(1) "1.prems"(2) "1.prems"(3) len' le]
          by (simp only: su match)
        show ?thesis
          by (subst scan.simps)
            (simp add: True rd match cl IH logged_scan_result j nth_match_skip [where P = "?P" and start = "unat offset" and stop = "unat limit", OF lt P])
      next
        case False
        with "1.prems"(5) have eq: "unat occurrenceIndex - unat occurrences = 0"
          by simp
        from False have cl: "\<not> ucast occurrences < occurrenceIndex"
          by (simp add: counter_less)
        show ?thesis
          by (subst scan.simps)
            (simp add: True rd match cl eq nth_match_hit [where P = "?P" and start = "unat offset" and stop = "unat limit", OF lt P] scan_result_def)
      qed
    next
      case miss: False
      then have P: "\<not> ?P (unat offset)"
        using "1.prems"(4) by simp
      have IH: "scan ctx sequence occurrenceIndex limit ?bytes' occurrences (offset + 1)
          = scan_result (nth_match ?P (unat occurrenceIndex - unat occurrences)
              (Suc (unat offset)) (unat limit))"
        using "1.IH"(2) [OF True rd miss "1.prems"(1) "1.prems"(2) "1.prems"(3) len' "1.prems"(5)]
        by (simp only: su)
      show ?thesis
        by (subst scan.simps)
          (simp add: True rd miss IH logged_scan_result nth_match_miss [where P = "?P" and start = "unat offset" and stop = "unat limit", OF lt P])
    qed
  qed
qed


lemma sequence_of_bytes:
  "\<forall>b \<in> set params. b \<le> 0xFF \<Longrightarrow> sequence_of i params = Inr (map ucast params)"
proof (induction params arbitrary: i)
  case Nil
  then show ?case by simp
next
  case (Cons b params)
  have m: "(0xFF :: u128) = mask 8"
    by (simp add: mask_eq_exp_minus_1)
  have "(ucast (b AND 0xFF) :: u8) = ucast b"
    unfolding m by (rule bit_word_eqI) (auto simp: bit_simps)
  with Cons show ?case
    by (simp add: not_less [symmetric])
qed

lemma unat_ucast_u128_u64: "unat (x :: u128) < 2 ^ 64 \<Longrightarrow> unat (ucast x :: u64) = unat x"
  by (simp add: unsigned_ucast_eq take_bit_nat_eq_self)

lemma unat_end_offset:
  assumes "unat (offsetTo :: u128) < 2 ^ 64"
  shows "unat (if offsetTo \<le> offsetFrom then bufferSize else min bufferSize (ucast offsetTo :: u64))
    = spec_end_offset (unat bufferSize) (unat offsetFrom) (unat offsetTo)"
proof -
  have "unat (min bufferSize (ucast offsetTo :: u64)) = min (unat bufferSize) (unat offsetTo)"
    using unat_ucast_u128_u64 [OF assms] by (simp add: min_def word_le_nat_alt)
  then show ?thesis
    by (simp add: spec_end_offset_def word_le_nat_alt)
qed

lemma unat_limit:
  assumes "n \<le> unat (endOffset :: u64)"
  shows "unat (endOffset - word_of_nat n) = unat endOffset - n"
proof -
  have n: "unat (word_of_nat n :: u64) = n"
    using assms unsigned_less [of endOffset, where ?'a = nat]
    by (simp add: unsigned_of_nat take_bit_nat_eq_self)
  then have "word_of_nat n \<le> endOffset"
    using assms by (simp add: word_le_nat_alt)
  then show ?thesis
    by (simp add: unat_sub n)
qed

lemma spec_end_offset_le: "spec_end_offset dataSize offsetFrom offsetTo \<le> dataSize"
  by (simp add: spec_end_offset_def)

text \<open>
  C4.  Amended claim: for every call whose byte parameters are at most \<open>0xFF\<close>, whose
  \<open>offsetFrom\<close> and \<open>offsetTo\<close> are below \<open>2 ^ 64\<close>, whose \<open>occurrenceIndex\<close> is below
  \<open>2 ^ 32\<close>, whose sequence is not longer than the effective end offset, and on a host
  whose reads inside the data succeed and deliver the bytes of memory (a host that
  signals or ignores reads outside the data included), the builtin does what the
  specification describes: the effective end offset is \<open>dataSize\<close> when
  \<open>offsetTo \<le> offsetFrom\<close> and \<open>min dataSize offsetTo\<close> otherwise; the offsets from
  \<open>offsetFrom\<close> up to \<open>endOffset - sequenceLength\<close> (exclusive) are read from left to
  right, each compared with the sequence; the result is the offset of the match whose
  0-based ordinal is \<open>occurrenceIndex\<close> as an UnsignedInteger (and no later offset is
  read), or the SignedInteger \<open>-1\<close> after all candidates were read when fewer matches
  exist.
\<close>

theorem find_sequence_in_range_refines_spec:
  assumes "delivers ctx mem"
    and "\<forall>b \<in> set params. b \<le> 0xFF"
    and "unat occurrenceIndex < 2 ^ 32"
    and "unat offsetFrom < 2 ^ 64"
    and "unat offsetTo < 2 ^ 64"
    and "length params \<le> spec_end_offset (unat (getDataSize ctx)) (unat offsetFrom) (unat offsetTo)"
  shows "find_sequence_in_range ctx occurrenceIndex offsetFrom offsetTo params =
     (let (scanned, result) =
            spec_find_sequence_in_range mem (unat (getDataSize ctx)) (unat occurrenceIndex)
              (unat offsetFrom) (unat offsetTo) (map ucast params)
      in (map word_of_nat scanned, Inr (Some result)))"
proof -
  let ?sequence = "map ucast params :: u8 list"
  let ?endOffset = "if offsetTo \<le> offsetFrom then getDataSize ctx
                    else min (getDataSize ctx) (ucast offsetTo)"
  let ?limit = "?endOffset - word_of_nat (length ?sequence)"
  let ?P = "\<lambda>offset. mem offset (length ?sequence) = ?sequence"
  have s: "sequence_of 3 params = Inr ?sequence"
    using assms(2) by (rule sequence_of_bytes)
  have e: "unat ?endOffset = spec_end_offset (unat (getDataSize ctx)) (unat offsetFrom) (unat offsetTo)"
    using assms(5) by (rule unat_end_offset)
  have l: "unat ?limit
      = spec_end_offset (unat (getDataSize ctx)) (unat offsetFrom) (unat offsetTo) - length params"
    using unat_limit [of "length params" ?endOffset] assms(6) by (simp only: e length_map)
  have inside: "unat ?limit + length ?sequence \<le> unat (getDataSize ctx)"
    unfolding l
    using assms(6) spec_end_offset_le [of "unat (getDataSize ctx)" "unat offsetFrom" "unat offsetTo"]
    by simp
  have sc: "scan ctx ?sequence occurrenceIndex ?limit
      (replicate (length ?sequence) 0) 0 (ucast offsetFrom)
    = scan_result (nth_match ?P (unat occurrenceIndex) (unat offsetFrom)
        (spec_end_offset (unat (getDataSize ctx)) (unat offsetFrom) (unat offsetTo) - length params))"
    using scan_refines [where ctx = ctx and mem = mem and occurrenceIndex = occurrenceIndex
        and limit = ?limit and sequence = ?sequence
        and bytes = "replicate (length ?sequence) 0" and occurrences = 0
        and offset = "ucast offsetFrom", OF assms(1) assms(3) inside]
    by (simp only: l unat_ucast_u128_u64 [OF assms(4)]) simp
  show ?thesis
    unfolding find_sequence_in_range_def s sum.case Let_def sc
    by (simp add: scan_result_def nth_match_def spec_find_sequence_in_range_def
        spec_candidates_def spec_matches_def Let_def)
qed

lemma unat_data_size_le: "unat (word_of_nat n :: u64) \<le> n"
  by (simp add: unsigned_of_nat take_bit_eq_mod)

lemma delivers_strict_host: "delivers (strict_host mem) (slice mem)"
  using unat_data_size_le [of "length mem"]
  by (auto simp: delivers_def strict_host_def slice_def)

lemma delivers_lenient_host: "delivers (lenient_host mem) (slice mem)"
  using unat_data_size_le [of "length mem"]
  by (auto simp: delivers_def lenient_host_def slice_def)

lemma delivers_total_host: "delivers (total_host mem) (bytes_at mem)"
  by (simp add: delivers_def total_host_def bytes_at_def)

lemma sample_spec:
  "spec_find_sequence_in_range (slice sample) 8 0 0 0 [0xAA, 0xBB]
     = ([0, 1, 2, 3, 4], UnsignedInteger 4)"
  "spec_find_sequence_in_range (slice sample) 8 (Suc 0) 0 0 [0xAA, 0xBB]
     = ([0, 1, 2, 3, 4, 5], SignedInteger (- 1))"
  by code_simp+

theorem find_sequence_in_range_refines_spec_witness:
  "find_sequence_in_range (strict_host sample) 0 0 0 [0xAA, 0xBB]
     = ([0, 1, 2, 3, 4], Inr (Some (UnsignedInteger 4)))
   \<and> find_sequence_in_range (strict_host sample) 1 0 0 [0xAA, 0xBB]
     = ([0, 1, 2, 3, 4, 5], Inr (Some (SignedInteger (- 1))))"
proof -
  have d: "delivers (strict_host sample) (slice sample)"
    by (rule delivers_strict_host)
  have b: "\<forall>b \<in> set [0xAA, 0xBB :: u128]. b \<le> 0xFF"
    by simp
  have n: "length [0xAA, 0xBB :: u128]
      \<le> spec_end_offset (unat (getDataSize (strict_host sample))) (unat (0 :: u128)) (unat (0 :: u128))"
    by (simp add: spec_end_offset_def strict_host_def sample_def)
  have g: "unat (getDataSize (strict_host sample)) = 8"
    by (simp add: strict_host_def sample_def)
  show ?thesis
    using find_sequence_in_range_refines_spec [OF d b _ _ _ n, of 0]
      find_sequence_in_range_refines_spec [OF d b _ _ _ n, of 1]
    by (simp add: g sample_spec)
qed

lemma counter_below_index:
  "2 ^ 32 \<le> unat (occurrenceIndex :: u128) \<Longrightarrow> ucast (occurrences :: u32) < occurrenceIndex"
  using unsigned_less [of occurrences, where ?'a = nat]
  by (simp add: counter_less)

lemma scan_never_returns_offset:
  "2 ^ 32 \<le> unat occurrenceIndex \<Longrightarrow>
   snd (scan ctx sequence occurrenceIndex limit bytes occurrences offset)
     \<noteq> Inr (Some (UnsignedInteger v))"
proof (induction ctx sequence occurrenceIndex limit bytes occurrences offset rule: scan.induct)
  case (1 ctx sequence occurrenceIndex limit bytes occurrences offset)
  note c = counter_below_index [OF "1.prems", of occurrences]
  show ?case
  proof (cases "offset < limit")
    case False
    then show ?thesis by (subst scan.simps) simp
  next
    case True
    show ?thesis
    proof (cases "readData ctx offset bytes")
      case (Inl f)
      with True show ?thesis by (subst scan.simps) simp
    next
      case (Inr bytes')
      show ?thesis
      proof (cases "bytes' = sequence")
        case True
        from "1.IH"(1) [OF \<open>offset < limit\<close> Inr True c "1.prems"] show ?thesis
          by (subst scan.simps) (simp add: \<open>offset < limit\<close> Inr True c logged_def)
      next
        case False
        from "1.IH"(2) [OF \<open>offset < limit\<close> Inr False "1.prems"] show ?thesis
          by (subst scan.simps) (simp add: \<open>offset < limit\<close> Inr False logged_def)
      qed
    qed
  qed
qed

lemma zero_data_spec:
  "snd (spec_find_sequence_in_range (\<lambda>offset n. replicate n 0x00) (2 ^ 33) (2 ^ 32) 0 0 [0x00])
     = UnsignedInteger (2 ^ 32)"
  by (simp add: spec_find_sequence_in_range_def spec_candidates_def spec_end_offset_def
      spec_matches_def Let_def del: upt_Suc)

lemma zero_data_counter:
  "snd (find_sequence_in_range zero_host (2 ^ 32) 0 0 [0x00]) \<noteq> Inr (Some (UnsignedInteger (2 ^ 32)))"
  by (simp add: find_sequence_in_range_def Let_def scan_never_returns_offset)

text \<open>
  The claim as stated (for every call) fails in three ways.  With the effective end offset
  1 and a sequence of two bytes, \<open>endOffset - sequenceLength\<close> wraps to \<open>2 ^ 64 - 1\<close>:
  the scan runs past \<open>offsetTo\<close> and returns the match at 4, where the specification has
  no candidate and returns \<open>-1\<close>.  With \<open>offsetFrom = 2 ^ 64\<close> the scan starts at the low
  64 bits, offset 0.  With \<open>occurrenceIndex = 2 ^ 32\<close> over 8 GiB of zero bytes the 32-bit
  match counter never reaches the index, so the match with ordinal \<open>2 ^ 32\<close> is not
  returned.
\<close>

theorem find_sequence_in_range_leaves_spec:
  "find_sequence_in_range (total_host sample) 0 0 1 [0xAA, 0xBB]
     = ([0, 1, 2, 3, 4], Inr (Some (UnsignedInteger 4)))
   \<and> spec_find_sequence_in_range (bytes_at sample) 8 0 0 1 [0xAA, 0xBB]
     = ([], SignedInteger (- 1))
   \<and> find_sequence_in_range (total_host sample) 0 (2 ^ 64) 0 [0xAA, 0xBB]
     = ([0, 1, 2, 3, 4], Inr (Some (UnsignedInteger 4)))
   \<and> spec_find_sequence_in_range (bytes_at sample) 8 0 (2 ^ 64) 0 [0xAA, 0xBB]
     = ([], SignedInteger (- 1))
   \<and> snd (find_sequence_in_range zero_host (2 ^ 32) 0 0 [0x00])
     \<noteq> Inr (Some (UnsignedInteger (2 ^ 32)))
   \<and> snd (spec_find_sequence_in_range (\<lambda>offset n. replicate n 0x00) (2 ^ 33) (2 ^ 32) 0 0 [0x00])
     = UnsignedInteger (2 ^ 32)"
proof -
  have "find_sequence_in_range (total_host sample) 0 0 1 [0xAA, 0xBB]
      = ([0, 1, 2, 3, 4], Inr (Some (UnsignedInteger 4)))"
    by code_simp
  moreover have "spec_find_sequence_in_range (bytes_at sample) 8 0 0 1 [0xAA, 0xBB]
      = ([], SignedInteger (- 1))"
    by code_simp
  moreover have "find_sequence_in_range (total_host sample) 0 (2 ^ 64) 0 [0xAA, 0xBB]
      = ([0, 1, 2, 3, 4], Inr (Some (UnsignedInteger 4)))"
    by code_simp
  moreover have "spec_find_sequence_in_range (bytes_at sample) 8 0 (2 ^ 64) 0 [0xAA, 0xBB]
      = ([], SignedInteger (- 1))"
    by (simp add: spec_find_sequence_in_range_def spec_candidates_def spec_end_offset_def
        spec_matches_def)
  ultimately show ?thesis
    using zero_data_counter zero_data_spec by blast
qed

lemma scan_reads_first:
  "offset < limit \<Longrightarrow>
   \<exists>rest. fst (scan ctx sequence occurrenceIndex limit bytes occurrences offset) = offset # rest"
  by (subst scan.simps) (simp add: logged_def split: sum.splits)

lemma wrapped_limit:
  assumes "unat (endOffset :: u64) < n" "n < 2 ^ 64"
  shows "unat (endOffset - word_of_nat n) = 2 ^ 64 + unat endOffset - n"
proof -
  have n: "unat (word_of_nat n :: u64) = n"
    using assms(2) by (simp add: unsigned_of_nat take_bit_nat_eq_self)
  show ?thesis
    using assms n by (simp add: unat_sub_if_size word_size)
qed

lemma short_data_is_read:
  assumes "\<forall>b \<in> set params. b \<le> 0xFF"
    and "unat (getDataSize ctx) < length params"
    and "length params < 2 ^ 64"
    and "unat (ucast offsetFrom :: u64) < 2 ^ 64 - length params"
  shows "\<exists>rest. fst (find_sequence_in_range ctx occurrenceIndex offsetFrom offsetTo params)
           = ucast offsetFrom # rest"
proof -
  let ?endOffset = "if offsetTo \<le> offsetFrom then getDataSize ctx
                    else min (getDataSize ctx) (ucast offsetTo)"
  have "?endOffset \<le> getDataSize ctx"
    by simp
  then have e: "unat ?endOffset < length params"
    using assms(2) by (simp only: word_le_nat_alt)
  have "unat (?endOffset - word_of_nat (length params)) = 2 ^ 64 + unat ?endOffset - length params"
    using e assms(3) by (rule wrapped_limit)
  with assms(4) have "unat (ucast offsetFrom :: u64) < unat (?endOffset - word_of_nat (length params))"
    by simp
  then have "ucast offsetFrom < ?endOffset - word_of_nat (length params)"
    by (simp only: word_less_nat_alt)
  from scan_reads_first [OF this] show ?thesis
    by (simp only: find_sequence_in_range_def sequence_of_bytes [OF assms(1)] sum.case Let_def
        length_map)
qed

text \<open>
  C1.  The claim asks that a call over a 4-byte buffer with a 6-byte sequence reads nothing
  and returns \<open>-1\<close>.  The loop bound \<^verbatim>\<open>endOffset - sequence.size()\<close> is an unsigned
  64-bit difference: with \<open>endOffset \<le> 4\<close> it wraps to at least \<open>2 ^ 64 - 6\<close>, and the
  scan starts reading at \<open>offsetFrom\<close>, outside the data.  On a host that signals such a
  read the call ends with the host's fault; on a host that ignores it the buffer keeps
  its zeros, which equal a sequence of six zero bytes, and the call returns \<open>offsetFrom\<close>.
\<close>

theorem short_buffer_is_scanned:
  "find_sequence_in_range (strict_host [0xAA, 0xBB, 0xCC, 0xDD]) 0 0 0 [1, 2, 3, 4, 5, 6]
     = ([0], Inl (Abort ''read out of bounds''))
   \<and> find_sequence_in_range (lenient_host [0xAA, 0xBB, 0xCC, 0xDD]) 0 0 0 [0, 0, 0, 0, 0, 0]
     = ([0], Inr (Some (UnsignedInteger 0)))
   \<and> find_sequence_in_range (lenient_host [0xAA, 0xBB, 0xCC, 0xDD]) 0 1 3 [0, 0, 0, 0, 0, 0]
     = ([1], Inr (Some (UnsignedInteger 1)))"
  by (intro conjI; code_simp)

subsection \<open>Signed reads\<close>

lemma value_of_bytes_append:
  "take_bit (8 * length bs) (value_of_bytes (bs @ rest)) = value_of_bytes bs"
proof (induction bs)
  case Nil
  then show ?case by simp
next
  case (Cons b bs)
  have "take_bit (8 + 8 * length bs) (ucast b OR push_bit 8 (value_of_bytes (bs @ rest)))
      = ucast b OR push_bit 8 (take_bit (8 * length bs) (value_of_bytes (bs @ rest)))"
    by (rule bit_word_eqI) (auto simp: bit_simps dest: bit_imp_le_length)
  with Cons show ?case by simp
qed

lemma value_of_stored_from:
  "value_of_bytes (map (\<lambda>i. ucast (drop_bit (8 * i) v)) [k ..< k + n])
     = take_bit (8 * n) (drop_bit (8 * k) (v :: i128))"
proof (induction n arbitrary: k)
  case 0
  then show ?case by simp
next
  case (Suc n)
  have u: "[k ..< k + Suc n] = k # [Suc k ..< Suc k + n]"
    by (simp add: upt_conv_Cons)
  have "(ucast (ucast (drop_bit (8 * k) v) :: u8) :: i128)
          OR push_bit 8 (take_bit (8 * n) (drop_bit (8 * Suc k) v))
      = take_bit (8 * Suc n) (drop_bit (8 * k) v)"
    by (rule bit_word_eqI) (auto simp: bit_simps dest: bit_imp_le_length)
  with Suc [of "Suc k"] show ?case
    by (simp only: u list.map value_of_bytes.simps)
qed

lemma value_of_stored: "value_of_bytes (stored_bytes n v) = take_bit (8 * n) v"
  using value_of_stored_from [of v 0 n] by (simp add: stored_bytes_def)

lemma signExtend_low_bits:
  "0 < n \<Longrightarrow> take_bit n x = take_bit n y \<Longrightarrow> signExtend n x = signExtend n y"
  by (cases n) (simp_all add: signExtend_def signed_take_bit_eq_iff_take_bit_eq)

lemma signExtend_representable:
  assumes "0 < n" "n \<le> 128" "- (2 ^ (n - 1)) \<le> sint v" "sint v < 2 ^ (n - 1)"
  shows "signExtend n v = v"
proof -
  have s: "signed_take_bit (n - 1) (sint v) = sint v"
    using assms(3,4) by (rule signed_take_bit_int_eq_self)
  have "bit (signed_take_bit (n - 1) v) i = bit v i" if "i < 128" for i
  proof -
    have m: "min (n - 1) i < 128" using that by simp
    have "bit (signed_take_bit (n - 1) v) i = bit v (min (n - 1) i)"
      using that by (simp add: bit_signed_take_bit_iff)
    also have "\<dots> = bit (sint v) (min (n - 1) i)"
      using m assms(2) by (auto simp add: bit_sint_iff)
    also have "\<dots> = bit (signed_take_bit (n - 1) (sint v)) i"
      by (simp add: bit_signed_take_bit_iff)
    also have "\<dots> = bit (sint v) i"
      by (simp only: s)
    also have "\<dots> = bit v i"
      using that by (simp add: bit_sint_iff)
    finally show ?thesis .
  qed
  then show ?thesis
    unfolding signExtend_def by (intro bit_word_eqI) simp
qed


lemma unat_size_bits: "(sz :: u128) \<le> 16 \<Longrightarrow> unat (sz * 8) = 8 * unat sz"
proof -
  assume "sz \<le> 16"
  then have "unat sz \<le> 16" by (simp add: word_le_nat_alt)
  then show ?thesis by (simp add: unat_word_ariths)
qed

lemma read_signed_value:
  assumes "1 \<le> sz" "sz \<le> 16"
    and "readData ctx (ucast address) (take (unat sz) (object_bytes uninitialized)) = Inr bytes"
    and "length bytes = unat sz"
  shows "read_signed ctx uninitialized address sz
    = Inr (Some (SignedInteger (signExtend (8 * unat sz) (value_of_bytes bytes))))"
proof -
  have p: "0 < 8 * unat sz"
    using assms(1) by (simp add: word_le_nat_alt)
  have "take_bit (8 * unat sz) (value_of_bytes (bytes @ drop (unat sz) (object_bytes uninitialized)))
      = take_bit (8 * unat sz) (value_of_bytes bytes)"
    using value_of_bytes_append [of bytes "drop (unat sz) (object_bytes uninitialized)"]
      value_of_bytes_append [of bytes "[]"]
    by (simp add: assms(4))
  from signExtend_low_bits [OF p this] show ?thesis
    using assms(2,3) by (simp add: read_signed_def unat_size_bits not_less [symmetric])
qed

text \<open>
  C8.  \<^verbatim>\<open>read_signed(addr, n)\<close> aborts with "read size out of range" whenever \<open>n > 16\<close>.
  For \<open>1 \<le> n \<le> 16\<close>, when the host read succeeds and fills the \<open>n\<close> bytes, the result
  is the SignedInteger obtained by sign-extending the low \<open>n * 8\<close> bits of the
  little-endian value of the bytes read to 128 bits, whatever the uninitialised local
  held before.  So when memory holds the \<open>n\<close> bytes of a value \<open>v\<close> with
  \<open>- 2 ^ (8 * n - 1) \<le> v < 2 ^ (8 * n - 1)\<close>, \<^verbatim>\<open>read_signed\<close> returns \<open>v\<close>.
\<close>

theorem read_signed_sign_extends:
  "(sz > 16 \<longrightarrow> read_signed ctx uninitialized address sz = Inl (Abort ''read size out of range''))
   \<and> (1 \<le> sz \<and> sz \<le> 16
        \<and> readData ctx (ucast address) (take (unat sz) (object_bytes uninitialized)) = Inr bytes
        \<and> length bytes = unat sz \<longrightarrow>
      read_signed ctx uninitialized address sz
        = Inr (Some (SignedInteger (signed_take_bit (8 * unat sz - 1) (value_of_bytes bytes)))))
   \<and> (1 \<le> sz \<and> sz \<le> 16
        \<and> readData ctx (ucast address) (take (unat sz) (object_bytes uninitialized))
            = Inr (stored_bytes (unat sz) v)
        \<and> - (2 ^ (8 * unat sz - 1)) \<le> sint v \<and> sint v < 2 ^ (8 * unat sz - 1) \<longrightarrow>
      read_signed ctx uninitialized address sz = Inr (Some (SignedInteger v)))"
proof (intro conjI impI; (elim conjE)?)
  assume "sz > 16"
  then show "read_signed ctx uninitialized address sz = Inl (Abort ''read size out of range'')"
    by (simp add: read_signed_def)
next
  assume "1 \<le> sz" "sz \<le> 16"
    "readData ctx (ucast address) (take (unat sz) (object_bytes uninitialized)) = Inr bytes"
    "length bytes = unat sz"
  then show "read_signed ctx uninitialized address sz
      = Inr (Some (SignedInteger (signed_take_bit (8 * unat sz - 1) (value_of_bytes bytes))))"
    by (simp add: read_signed_value signExtend_def)
next
  assume a: "1 \<le> sz" "sz \<le> 16"
    "readData ctx (ucast address) (take (unat sz) (object_bytes uninitialized))
       = Inr (stored_bytes (unat sz) v)"
    and r: "- (2 ^ (8 * unat sz - 1)) \<le> sint v" "sint v < 2 ^ (8 * unat sz - 1)"
  have p: "0 < 8 * unat sz"
    using a(1) by (simp add: word_le_nat_alt)
  have q: "8 * unat sz \<le> 128"
    using a(2) by (simp add: word_le_nat_alt)
  have l: "length (stored_bytes (unat sz) v) = unat sz"
    by (simp add: stored_bytes_def)
  have "signExtend (8 * unat sz) (value_of_bytes (stored_bytes (unat sz) v))
      = signExtend (8 * unat sz) v"
    using p by (rule signExtend_low_bits) (simp add: value_of_stored)
  also have "\<dots> = v"
    using p q r by (rule signExtend_representable)
  finally show "read_signed ctx uninitialized address sz = Inr (Some (SignedInteger v))"
    using read_signed_value [OF a l] by simp
qed

theorem read_signed_sign_extends_witness:
  "read_signed (total_host [0xFE, 0xFF, 0x7F]) 0xDEADBEEF 0 2 = Inr (Some (SignedInteger (- 2)))
   \<and> read_signed (total_host [0xFE, 0xFF, 0x7F]) 0xDEADBEEF 0 17
       = Inl (Abort ''read size out of range'')"
proof -
  have s: "stored_bytes 2 (- 2) = [0xFE, 0xFF]"
    by code_simp
  have b: "bytes_at [0xFE, 0xFF, 0x7F] 0 2 = [0xFE, 0xFF]"
    by code_simp
  have o: "length (object_bytes 0xDEADBEEF) = 16"
    by (simp add: object_bytes_def)
  show ?thesis
    using read_signed_sign_extends [of 2 "total_host [0xFE, 0xFF, 0x7F]" "0xDEADBEEF" 0
        "[0xFE, 0xFF]" "- 2"]
      read_signed_sign_extends [of 17 "total_host [0xFE, 0xFF, 0x7F]" "0xDEADBEEF" 0
        "[0xFE, 0xFF]" "- 2"]
    by (simp add: total_host_def s b o)
qed

subsection \<open>Parsing numbers\<close>














subsection \<open>Character access\<close>

text \<open>
  The outcome of \<^verbatim>\<open>at\<close> for every index but the least \<^verbatim>\<open>i128\<close>: the abort is taken
  exactly when the magnitude of the index exceeds the length, and the index equal to
  the length reads the terminator.
\<close>

lemma to_size_t_nat: "0 \<le> i \<Longrightarrow> i < 2 ^ 64 \<Longrightarrow> to_size_t i = nat i"
  by (simp add: to_size_t_def unsigned_of_int take_bit_int_eq_self)

lemma at_cases:
  assumes "sint index \<noteq> - (2 ^ 127)" and "length string < 2 ^ 64"
  shows "at string index =
     (if int (length string) < \<bar>sint index\<bar> then Inl (Abort ''character index out of range'')
      else if sint index = int (length string) then Inr (Some (Character (CHR 0x00)))
      else if 0 \<le> sint index then Inr (Some (Character (string ! nat (sint index))))
      else Inr (Some (Character (string ! (length string - nat (- sint index))))))"
proof -
  have l: "int (length string) < 2 ^ 64"
    using assms(2) by simp
  consider (out) "int (length string) < \<bar>sint index\<bar>"
    | (nonneg) "0 \<le> sint index" "sint index \<le> int (length string)"
    | (neg) "sint index < 0" "- sint index \<le> int (length string)"
    by linarith
  then show ?thesis
  proof cases
    case out
    then show ?thesis using assms(1) by (simp add: at_def)
  next
    case nonneg
    then have "to_size_t (sint index) = nat (sint index)"
      using l by (intro to_size_t_nat) simp_all
    with nonneg assms(1) show ?thesis
      by (auto simp: at_def string_index_def Let_def)
  next
    case neg
    then have "to_size_t (int (length string) - - sint index) = nat (int (length string) + sint index)"
      using l by (simp add: to_size_t_nat)
    moreover have "nat (int (length string) + sint index) = length string - nat (- sint index)"
      using neg by linarith
    ultimately show ?thesis
      using neg assms(1) by (auto simp: at_def string_index_def Let_def)
  qed
qed

end
